theory Spec2Isabelle
  imports Main "HOL-Library.Word"
begin

unbundle bit_operations_syntax

section \<open>Machine types of \<^verbatim>\<open>io.c\<close>\<close>

text \<open>
  The heat solver is built for an LP64 platform: \<^verbatim>\<open>int\<close> has 32 bits, \<^verbatim>\<open>size_t\<close> has 64
  bits, \<^verbatim>\<open>double\<close> occupies 8 bytes. A \<^verbatim>\<open>double\<close> is represented by its 64-bit pattern: the
  I/O routines only copy cells, so equality of patterns is bit-for-bit equality.
  Arithmetic on \<^verbatim>\<open>int\<close> wraps around (the usual two's complement behaviour of the
  compilers in use); the conversions between \<^verbatim>\<open>int\<close> and \<^verbatim>\<open>size_t\<close> are the ones of C:
  sign extension when widening, truncation when narrowing.
\<close>

type_synonym int32 = "32 word"
type_synonym size_t = "64 word"
type_synonym byte = "8 word"
type_synonym double = "64 word"

definition sizeof_int :: size_t where
  "sizeof_int = 4"

definition sizeof_double :: size_t where
  "sizeof_double = 8"

definition size_t_of_int :: "int32 \<Rightarrow> size_t" where
  "size_t_of_int x = scast x"

definition int_of_size_t :: "size_t \<Rightarrow> int32" where
  "int_of_size_t x = ucast x"

section \<open>Checkpoint addressing\<close>

text \<open>
  Lines 160--162 of \<^verbatim>\<open>write_restart\<close>:
  \<^verbatim>\<open>disp = 3 * sizeof(int);\<close>
  \<^verbatim>\<open>disp += parallel->rank * (temperature->ny + 2) * (temperature->nx + 2) * sizeof(double);\<close>
  with \<^verbatim>\<open>int disp\<close>. The product of the three \<^verbatim>\<open>int\<close> operands is formed in \<^verbatim>\<open>int\<close>, widened
  to \<^verbatim>\<open>size_t\<close> for the multiplication by \<^verbatim>\<open>sizeof(double)\<close>, added to the widened \<^verbatim>\<open>disp\<close>,
  and the sum is narrowed back into the \<^verbatim>\<open>int\<close> variable.
\<close>

definition write_restart_disp :: "int32 \<Rightarrow> int32 \<Rightarrow> int32 \<Rightarrow> int32" where
  "write_restart_disp rank nx ny =
     (let disp = int_of_size_t (3 * sizeof_int);
          disp = int_of_size_t (size_t_of_int disp +
                   size_t_of_int (rank * (ny + 2) * (nx + 2)) * sizeof_double)
      in disp)"

text \<open>Lines 198--200 of \<^verbatim>\<open>read_restart\<close>, the same two statements.\<close>

definition read_restart_disp :: "int32 \<Rightarrow> int32 \<Rightarrow> int32 \<Rightarrow> int32" where
  "read_restart_disp rank nx ny =
     (let disp = int_of_size_t (3 * sizeof_int);
          disp = int_of_size_t (size_t_of_int disp +
                   size_t_of_int (rank * (ny + 2) * (nx + 2)) * sizeof_double)
      in disp)"

text \<open>
  The offset formula in the words of the specification, over the unbounded integers:
  \<open>offset = header_bytes + rank_index \<times> tile_bytes\<close> with
  \<open>tile_bytes = (local_rows + 2) \<times> (local_cols + 2) \<times> 8\<close> and a header of three 32-bit
  integers.
\<close>

definition spec_header_bytes :: int where
  "spec_header_bytes = 3 * 4"

definition spec_tile_bytes :: "int \<Rightarrow> int \<Rightarrow> int" where
  "spec_tile_bytes local_rows local_cols = (local_rows + 2) * (local_cols + 2) * 8"

definition spec_offset :: "int \<Rightarrow> int \<Rightarrow> int \<Rightarrow> int" where
  "spec_offset rank_index local_rows local_cols =
     spec_header_bytes + rank_index * spec_tile_bytes local_rows local_cols"

section \<open>Object representation and the checkpoint file\<close>

text \<open>
  The checkpoint is a file of bytes. An \<^verbatim>\<open>int\<close> is stored as its 4 bytes and a \<^verbatim>\<open>double\<close> as
  its 8 bytes, in the machine's byte order (little endian here; the order does not matter to
  any result below, since writer and reader run on the same machine).
\<close>

fun le_bytes :: "nat \<Rightarrow> nat \<Rightarrow> byte list" where
  "le_bytes 0 x = []"
| "le_bytes (Suc n) x = word_of_nat (x mod 256) # le_bytes n (x div 256)"

fun le_value :: "byte list \<Rightarrow> nat" where
  "le_value [] = 0"
| "le_value (b # bs) = unat b + 256 * le_value bs"

definition bytes_of_int :: "int32 \<Rightarrow> byte list" where
  "bytes_of_int v = le_bytes 4 (unat v)"

definition int_of_bytes :: "byte list \<Rightarrow> int32" where
  "int_of_bytes bs = word_of_nat (le_value bs)"

definition bytes_of_double :: "double \<Rightarrow> byte list" where
  "bytes_of_double v = le_bytes 8 (unat v)"

definition double_of_bytes :: "byte list \<Rightarrow> double" where
  "double_of_bytes bs = word_of_nat (le_value bs)"

text \<open>The memory image of an array of doubles, and the array held by a memory image.\<close>

definition bytes_of_doubles :: "double list \<Rightarrow> byte list" where
  "bytes_of_doubles xs = concat (map bytes_of_double xs)"

fun doubles_of_bytes :: "nat \<Rightarrow> byte list \<Rightarrow> double list" where
  "doubles_of_bytes 0 bs = []"
| "doubles_of_bytes (Suc n) bs = double_of_bytes (take 8 bs) # doubles_of_bytes n (drop 8 bs)"

text \<open>
  Positioned file access. Writing beyond the end of the file extends it (the gap, if any,
  reads as zero bytes); bytes after the written range stay as they are. Reading transfers
  the bytes that exist in the requested range, possibly fewer than asked for.
\<close>

type_synonym file_contents = "byte list"

definition pwrite :: "file_contents \<Rightarrow> nat \<Rightarrow> byte list \<Rightarrow> file_contents" where
  "pwrite f off bs = take off f @ replicate (off - length f) 0 @ bs @ drop (off + length bs) f"

definition pread :: "file_contents \<Rightarrow> nat \<Rightarrow> nat \<Rightarrow> byte list" where
  "pread f off n = take n (drop off f)"

text \<open>
  The MPI-IO calls of \<^verbatim>\<open>write_restart\<close> and \<^verbatim>\<open>read_restart\<close>, under the default file view (byte
  offsets) and the default error handler of files (errors are returned; \<^verbatim>\<open>io.c\<close> ignores
  every return value). An open file is its contents together with the individual file
  pointer of the calling process. The state of the file system is \<open>None\<close> when the
  checkpoint does not exist.

  \<^verbatim>\<open>MPI_MODE_CREATE | MPI_MODE_WRONLY\<close> creates the file when it does not exist and opens an
  existing file as it is: MPI has no truncating access mode, and \<^verbatim>\<open>write_restart\<close> neither
  deletes the file nor calls \<^verbatim>\<open>MPI_File_set_size\<close>.
\<close>

record mpi_file =
  contents :: file_contents
  pointer :: nat

definition MPI_File_open_create_wronly :: "file_contents option \<Rightarrow> mpi_file" where
  "MPI_File_open_create_wronly fs =
     \<lparr>contents = (case fs of None \<Rightarrow> [] | Some f \<Rightarrow> f), pointer = 0\<rparr>"

text \<open>
  Opening a missing file read-only fails; the reads that follow on the null handle fail as
  well and leave their buffers untouched, which is what reading an empty file does.
\<close>

definition MPI_File_open_rdonly :: "file_contents option \<Rightarrow> mpi_file" where
  "MPI_File_open_rdonly fs =
     \<lparr>contents = (case fs of None \<Rightarrow> [] | Some f \<Rightarrow> f), pointer = 0\<rparr>"

definition MPI_File_close :: "mpi_file \<Rightarrow> file_contents option" where
  "MPI_File_close fp = Some (contents fp)"

text \<open>\<^verbatim>\<open>MPI_File_write(fp, &v, 1, MPI_INT, ...)\<close>: four bytes at the individual file pointer.\<close>

definition MPI_File_write_int :: "mpi_file \<Rightarrow> int32 \<Rightarrow> mpi_file" where
  "MPI_File_write_int fp v =
     fp\<lparr>contents := pwrite (contents fp) (pointer fp) (bytes_of_int v),
        pointer := pointer fp + 4\<rparr>"

text \<open>
  \<^verbatim>\<open>MPI_File_read_all(fp, &v, 1, MPI_INT, ...)\<close>: up to four bytes at the individual file
  pointer, stored over the bytes of the variable, whose previous value is \<open>old\<close>.
\<close>

definition MPI_File_read_all_int :: "mpi_file \<Rightarrow> int32 \<Rightarrow> int32 \<times> mpi_file" where
  "MPI_File_read_all_int fp old =
     (let bs = pread (contents fp) (pointer fp) 4
      in (int_of_bytes (bs @ drop (length bs) (bytes_of_int old)),
          fp\<lparr>pointer := pointer fp + length bs\<rparr>))"

text \<open>
  \<^verbatim>\<open>MPI_File_write_at_all(fp, disp, buf, count, MPI_DOUBLE, ...)\<close>. The \<^verbatim>\<open>int\<close> argument \<^verbatim>\<open>disp\<close>
  is converted to the signed 64-bit \<^verbatim>\<open>MPI_Offset\<close>. A negative offset or count is an
  erroneous argument: the call returns an error and transfers nothing.
\<close>

definition MPI_File_write_at_all :: "mpi_file \<Rightarrow> int32 \<Rightarrow> double list \<Rightarrow> int32 \<Rightarrow> mpi_file" where
  "MPI_File_write_at_all fp disp buf count =
     (if sint disp < 0 \<or> sint count < 0 then fp
      else fp\<lparr>contents := pwrite (contents fp) (nat (sint disp))
                               (bytes_of_doubles (take (nat (sint count)) buf))\<rparr>)"

text \<open>
  \<^verbatim>\<open>MPI_File_read_at_all(fp, disp, buf, count, MPI_DOUBLE, ...)\<close>: the bytes that exist in the
  requested range replace the leading bytes of the buffer; the rest of the buffer keeps
  its contents.
\<close>

definition MPI_File_read_at_all :: "mpi_file \<Rightarrow> int32 \<Rightarrow> double list \<Rightarrow> int32 \<Rightarrow> double list" where
  "MPI_File_read_at_all fp disp buf count =
     (if sint disp < 0 \<or> sint count < 0 then buf
      else let bs = pread (contents fp) (nat (sint disp)) (8 * nat (sint count));
               mem = bytes_of_doubles buf
           in doubles_of_bytes (length buf) (bs @ drop (length bs) mem))"

section \<open>Fields and the parallel context\<close>

text \<open>
  The members of \<^verbatim>\<open>field\<close> and \<^verbatim>\<open>parallel_data\<close> that \<^verbatim>\<open>io.c\<close> uses (the declarations are in
  \<^verbatim>\<open>heat.h\<close>). \<^verbatim>\<open>data\<close> is the contiguous block behind the row pointers of \<^verbatim>\<open>malloc_2d\<close>:
  cell \<^verbatim>\<open>data[i][j]\<close> of a tile with \<^verbatim>\<open>ny + 2\<close> columns is element \<open>i * (ny + 2) + j\<close>.
\<close>

record field =
  nx :: int32
  ny :: int32
  nx_full :: int32
  ny_full :: int32
  data :: "double list"

record parallel_data =
  size_p :: int32
  rank :: int32

text \<open>
  Modelled from the spec: \<^verbatim>\<open>malloc_2d\<close> is declared in \<^verbatim>\<open>heat.h\<close> and defined outside
  \<^verbatim>\<open>io.c\<close>. The tile allocator returns a block of \<open>rows \<times> cols\<close> cells; what the fresh
  memory holds is not specified and is the parameter \<open>heap\<close>.
\<close>

definition malloc_2d :: "(nat \<Rightarrow> double) \<Rightarrow> int32 \<Rightarrow> int32 \<Rightarrow> double list" where
  "malloc_2d heap nrows ncols = map heap [0..<nat (sint nrows) * nat (sint ncols)]"

text \<open>
  Modelled from the spec: \<^verbatim>\<open>parallel_setup\<close> is defined outside \<^verbatim>\<open>io.c\<close>. The decomposition
  descriptor yields the rank identity and the process count of the calling process, which
  the MPI runtime provides (\<open>env\<close>).
\<close>

definition parallel_setup :: "parallel_data \<Rightarrow> int32 \<Rightarrow> int32 \<Rightarrow> parallel_data" where
  "parallel_setup env rows cols = env"

text \<open>
  Modelled from the spec: \<^verbatim>\<open>set_field_dimensions\<close> is defined outside \<^verbatim>\<open>io.c\<close>. Only rows
  are split: the local column count is the global one, and the local row count is what the
  decomposition yields for this process; the decomposition policy is the parameter
  \<open>local_rows\<close>.
\<close>

definition set_field_dimensions ::
  "(parallel_data \<Rightarrow> int32 \<Rightarrow> int32) \<Rightarrow> int32 \<Rightarrow> int32 \<Rightarrow> parallel_data \<Rightarrow> field" where
  "set_field_dimensions local_rows rows cols parallel =
     \<lparr>nx = local_rows parallel rows, ny = cols, nx_full = rows, ny_full = cols, data = []\<rparr>"

text \<open>
  Modelled from the spec: \<^verbatim>\<open>allocate_field\<close> is defined outside \<^verbatim>\<open>io.c\<close>. It allocates the
  padded tile of \<open>(nx + 2) \<times> (ny + 2)\<close> cells.
\<close>

definition allocate_field :: "(nat \<Rightarrow> double) \<Rightarrow> field \<Rightarrow> field" where
  "allocate_field heap temperature =
     temperature\<lparr>data := malloc_2d heap (nx temperature + 2) (ny temperature + 2)\<rparr>"

section \<open>Outcomes of a routine\<close>

text \<open>
  A routine of \<^verbatim>\<open>io.c\<close> returns to its caller, or it ends the whole process group through
  \<^verbatim>\<open>MPI_Abort\<close>, or it runs into behaviour that C leaves undefined (such as handing a null
  \<^verbatim>\<open>FILE\<close> pointer to \<^verbatim>\<open>fscanf\<close>).
\<close>

datatype 'a outcome = Completed 'a | Aborted | Undefined_behaviour

section \<open>Checkpoint writer and checkpoint restart\<close>

text \<open>
  \<^verbatim>\<open>write_restart\<close> as one process runs it, as a function on the state of the checkpoint in
  the file system.
\<close>

definition write_restart :: "field \<Rightarrow> parallel_data \<Rightarrow> int32 \<Rightarrow> file_contents option \<Rightarrow> file_contents option" where
  "write_restart temperature parallel iter fs =
     (let fp = MPI_File_open_create_wronly fs;
          fp = (if rank parallel = 0
                then MPI_File_write_int
                       (MPI_File_write_int
                          (MPI_File_write_int fp (nx_full temperature))
                          (ny_full temperature))
                       iter
                else fp);
          size = (nx temperature + 2) * (ny temperature + 2);
          disp = write_restart_disp (rank parallel) (nx temperature) (ny temperature);
          fp = MPI_File_write_at_all fp disp (data temperature) size
      in MPI_File_close fp)"

text \<open>
  The byte range that the collective write of one process covers: first byte and number of
  bytes, or \<open>None\<close> when the call is rejected.
\<close>

definition write_restart_range :: "field \<Rightarrow> parallel_data \<Rightarrow> (nat \<times> nat) option" where
  "write_restart_range temperature parallel =
     (let size = (nx temperature + 2) * (ny temperature + 2);
          disp = write_restart_disp (rank parallel) (nx temperature) (ny temperature)
      in if sint disp < 0 \<or> sint size < 0 then None
         else Some (nat (sint disp),
                    length (bytes_of_doubles (take (nat (sint size)) (data temperature)))))"

text \<open>
  The process group: process \<open>r\<close> of \<open>length ts\<close> processes holds tile \<open>ts ! r\<close>. The
  processes run concurrently; the model lets them act on the file one after the other in
  rank order.
\<close>

definition write_restart_all :: "field list \<Rightarrow> int32 \<Rightarrow> file_contents option \<Rightarrow> file_contents option" where
  "write_restart_all ts iter fs =
     fold (\<lambda>r. write_restart (ts ! r)
                  \<lparr>size_p = word_of_nat (length ts), rank = word_of_nat r\<rparr> iter)
       [0..<length ts] fs"

text \<open>
  \<^verbatim>\<open>read_restart\<close> as one process runs it. \<open>rows0\<close> and \<open>cols0\<close> are what the uninitialised
  locals \<^verbatim>\<open>rows\<close> and \<^verbatim>\<open>cols\<close> hold, \<open>iter0\<close> is the caller's value of \<^verbatim>\<open>*iter\<close>. The routine
  contains no test and no call of \<^verbatim>\<open>MPI_Abort\<close>: it always returns, with the tile, the parallel
  context and the iteration number.
\<close>

definition read_restart ::
  "(parallel_data \<Rightarrow> int32 \<Rightarrow> int32) \<Rightarrow> (nat \<Rightarrow> double) \<Rightarrow> int32 \<Rightarrow> int32 \<Rightarrow>
   parallel_data \<Rightarrow> int32 \<Rightarrow> file_contents option \<Rightarrow>
   (field \<times> parallel_data \<times> int32) outcome" where
  "read_restart local_rows heap rows0 cols0 env iter0 fs =
     (let fp = MPI_File_open_rdonly fs;
          (rows, fp) = MPI_File_read_all_int fp rows0;
          (cols, fp) = MPI_File_read_all_int fp cols0;
          (iter, fp) = MPI_File_read_all_int fp iter0;
          parallel = parallel_setup env rows cols;
          temperature = set_field_dimensions local_rows rows cols parallel;
          temperature = allocate_field heap temperature;
          size = (nx temperature + 2) * (ny temperature + 2);
          disp = read_restart_disp (rank parallel) (nx temperature) (ny temperature);
          temperature = temperature\<lparr>data := MPI_File_read_at_all fp disp (data temperature) size\<rparr>
      in Completed (temperature, parallel, iter))"

definition read_restart_all ::
  "(parallel_data \<Rightarrow> int32 \<Rightarrow> int32) \<Rightarrow> (nat \<Rightarrow> double) \<Rightarrow> int32 \<Rightarrow> int32 \<Rightarrow>
   nat \<Rightarrow> int32 \<Rightarrow> file_contents option \<Rightarrow>
   (field \<times> parallel_data \<times> int32) outcome list" where
  "read_restart_all local_rows heap rows0 cols0 P iter0 fs =
     map (\<lambda>r. read_restart local_rows heap rows0 cols0
                 \<lparr>size_p = word_of_nat P, rank = word_of_nat r\<rparr> iter0 fs)
       [0..<P]"

text \<open>
  Modelled from the spec: the decomposition is computed outside \<^verbatim>\<open>io.c\<close>. The even row
  decomposition gives every process \<open>rows / P\<close> rows (positive operands); it instantiates
  the parameter \<open>local_rows\<close> in the examples.
\<close>

definition even_rows :: "parallel_data \<Rightarrow> int32 \<Rightarrow> int32" where
  "even_rows parallel rows = word_of_int (sint rows div sint (size_p parallel))"

section \<open>Blocks of cells\<close>

text \<open>
  \<^verbatim>\<open>malloc_2d(nrows, ncols)\<close> hands out row pointers into one block: \<^verbatim>\<open>a[i][j]\<close> is the cell
  at position \<open>i * ncols + j\<close> of the block.
\<close>

definition idx :: "nat \<Rightarrow> nat \<Rightarrow> nat \<Rightarrow> nat" where
  "idx ncols i j = i * ncols + j"

text \<open>
  \<^verbatim>\<open>memcpy\<close> of \<open>n\<close> cells from position \<open>soff\<close> of \<open>src\<close> to position \<open>doff\<close> of \<open>dst\<close>. C
  leaves a copy that leaves either block undefined; all results below are about copies
  that stay inside both blocks.
\<close>

definition memcpy :: "'a list \<Rightarrow> nat \<Rightarrow> 'a list \<Rightarrow> nat \<Rightarrow> nat \<Rightarrow> 'a list" where
  "memcpy dst doff src soff n = fold (\<lambda>k d. d[doff + k := src ! (soff + k)]) [0..<n] dst"

text \<open>
  Modelled from the spec: \<^verbatim>\<open>copy_field\<close> is defined outside \<^verbatim>\<open>io.c\<close>. The loaded tile is
  duplicated into the second tile.
\<close>

definition copy_field :: "field \<Rightarrow> field \<Rightarrow> field" where
  "copy_field temperature1 temperature2 = temperature2\<lparr>data := data temperature1\<rparr>"

section \<open>Field gather: \<^verbatim>\<open>write_field\<close>\<close>

text \<open>
  Lines 34--36 and lines 51--53 are the same loop with two destinations (\<^verbatim>\<open>full_data\<close> on
  rank 0, \<^verbatim>\<open>tmp_data\<close> on the other ranks): row \<open>i\<close> of the destination receives the \<^verbatim>\<open>ny\<close>
  interior cells of row \<open>i + 1\<close> of the padded tile, \<^verbatim>\<open>&temperature->data[i + 1][1]\<close>.
\<close>

definition copy_inner_rows :: "double list \<Rightarrow> field \<Rightarrow> double list" where
  "copy_inner_rows dst temperature =
     (let n = nat (sint (nx temperature)); m = nat (sint (ny temperature))
      in fold (\<lambda>i d. memcpy d (idx m i 0) (data temperature) (idx (m + 2) (i + 1) 1) m)
           [0..<n] dst)"

text \<open>
  A rank other than 0 (lines 29 and 50--55): the message it sends to rank 0 is the first
  \<^verbatim>\<open>nx * ny\<close> cells of \<^verbatim>\<open>tmp_data\<close>.
\<close>

definition write_field_send :: "(nat \<Rightarrow> double) \<Rightarrow> field \<Rightarrow> double list" where
  "write_field_send heap temperature =
     (let tmp_data = malloc_2d heap (nx temperature) (ny temperature);
          tmp_data = copy_inner_rows tmp_data temperature
      in take (nat (sint (nx temperature * ny temperature))) tmp_data)"

text \<open>
  The receive loop of rank 0 (lines 38--44), for the sources \<open>ps\<close> in the order of the list.
  \<open>msgs p\<close> is the message that rank \<open>p\<close> sent: \<^verbatim>\<open>MPI_Recv\<close> names its source, so the order in
  which messages arrive does not matter. A message longer than the receive count is a
  truncation error, which is fatal on a communicator. A shorter message replaces the
  leading cells of \<^verbatim>\<open>tmp_data\<close>.
\<close>

fun receive_loop ::
  "field \<Rightarrow> (nat \<Rightarrow> double list) \<Rightarrow> nat list \<Rightarrow> double list \<times> double list \<Rightarrow>
   (double list \<times> double list) outcome" where
  "receive_loop temperature msgs [] (tmp_data, full_data) = Completed (tmp_data, full_data)"
| "receive_loop temperature msgs (p # ps) (tmp_data, full_data) =
     (let count = nat (sint (nx temperature * ny temperature));
          n = nat (sint (nx temperature)); m = nat (sint (ny temperature))
      in if count < length (msgs p) then Aborted
         else let tmp_data = msgs p @ drop (length (msgs p)) tmp_data;
                  full_data = memcpy full_data (idx m (p * n) 0) tmp_data 0 count
              in receive_loop temperature msgs ps (tmp_data, full_data))"

text \<open>
  Rank 0 (lines 26--47). The result is what \<^verbatim>\<open>save_png\<close> is called with: the assembled
  buffer, \<^verbatim>\<open>height\<close> and \<^verbatim>\<open>width\<close>. (The file name \<^verbatim>\<open>heat_<iter>.png\<close> is not modelled.)
\<close>

definition write_field_root ::
  "(nat \<Rightarrow> double) \<Rightarrow> (nat \<Rightarrow> double) \<Rightarrow> field \<Rightarrow> parallel_data \<Rightarrow> (nat \<Rightarrow> double list) \<Rightarrow>
   (double list \<times> int32 \<times> int32) outcome" where
  "write_field_root heap_tmp heap_full temperature parallel msgs =
     (let height = nx temperature * size_p parallel;
          width = ny temperature;
          tmp_data = malloc_2d heap_tmp (nx temperature) (ny temperature);
          full_data = malloc_2d heap_full height width;
          full_data = copy_inner_rows full_data temperature
      in case receive_loop temperature msgs [1..<nat (sint (size_p parallel))] (tmp_data, full_data) of
           Completed (tmp_data, full_data) \<Rightarrow> Completed (full_data, height, width)
         | Aborted \<Rightarrow> Aborted
         | Undefined_behaviour \<Rightarrow> Undefined_behaviour)"

text \<open>The process group: rank \<open>p\<close> holds tile \<open>ts ! p\<close> and sends its interior to rank 0.\<close>

definition write_field_all ::
  "(nat \<Rightarrow> nat \<Rightarrow> double) \<Rightarrow> (nat \<Rightarrow> double) \<Rightarrow> field list \<Rightarrow>
   (double list \<times> int32 \<times> int32) outcome" where
  "write_field_all heap_tmp heap_full ts =
     write_field_root (heap_tmp 0) heap_full (ts ! 0)
       \<lparr>size_p = word_of_nat (length ts), rank = 0\<rparr>
       (\<lambda>p. write_field_send (heap_tmp p) (ts ! p))"

section \<open>Field scatter: \<^verbatim>\<open>read_field\<close>\<close>

text \<open>
  \<^verbatim>\<open>fscanf(fp, "# %d %d \n", &nx, &ny)\<close> on the text of the file. White space in the format
  skips any amount of white space in the input, line ends included; \<^verbatim>\<open>%d\<close> skips white
  space, then takes an optional sign and decimal digits. The call returns the number of
  converted items, or \<^verbatim>\<open>EOF\<close> (\<open>-1\<close>) when the input ends before the first conversion.
  For a number that \<^verbatim>\<open>int\<close> cannot represent C leaves the stored value undefined; the value
  kept here in that case, the number modulo \<open>2\<^sup>3\<^sup>2\<close>, is a placeholder on which no result
  below depends. The number of converted items is the same whatever is stored.
\<close>

definition isspace :: "char \<Rightarrow> bool" where
  "isspace c \<longleftrightarrow> c \<in> {CHR '' '', CHR 0x09, CHR 0x0A, CHR 0x0B, CHR 0x0C, CHR 0x0D}"

definition isdigit :: "char \<Rightarrow> bool" where
  "isdigit c \<longleftrightarrow> 48 \<le> (of_char c :: nat) \<and> (of_char c :: nat) \<le> 57"

fun decimal :: "int \<Rightarrow> string \<Rightarrow> int" where
  "decimal acc [] = acc"
| "decimal acc (c # cs) = decimal (10 * acc + (int (of_char c) - 48)) cs"

datatype conversion = Input_failure | Matching_failure | Converted int32 string

definition scan_d :: "string \<Rightarrow> conversion" where
  "scan_d s =
     (case dropWhile isspace s of
        [] \<Rightarrow> Input_failure
      | c # cs \<Rightarrow>
          let negative = (c = CHR ''-'');
              ds = (if c = CHR ''-'' \<or> c = CHR ''+'' then cs else c # cs);
              digits = takeWhile isdigit ds
          in if digits = [] then Matching_failure
             else Converted (word_of_int ((if negative then - 1 else 1) * decimal 0 digits))
                    (dropWhile isdigit ds))"

text \<open>The result: the return value, the values stored so far, and the rest of the stream.\<close>

definition fscanf_header :: "string \<Rightarrow> int32 \<times> int32 list \<times> string" where
  "fscanf_header s =
     (case s of
        [] \<Rightarrow> (- 1, [], [])
      | c # s1 \<Rightarrow>
          if c \<noteq> CHR ''#'' then (0, [], s)
          else (case scan_d s1 of
                  Input_failure \<Rightarrow> (- 1, [], [])
                | Matching_failure \<Rightarrow> (0, [], s1)
                | Converted a s2 \<Rightarrow>
                    (case scan_d s2 of
                       Input_failure \<Rightarrow> (1, [a], [])
                     | Matching_failure \<Rightarrow> (1, [a], s2)
                     | Converted b s3 \<Rightarrow> (2, [a, b], dropWhile isspace s3))))"

text \<open>What \<^verbatim>\<open>read_field\<close> does that other processes or the user can observe.\<close>

datatype event = Stderr string | Call_MPI_Abort int32 | Call_MPI_Scatter int32

text \<open>
  \<^verbatim>\<open>MPI_Scatter(full_data[0], count, MPI_DOUBLE, inner_data[0], count, MPI_DOUBLE, 0, ...)\<close> as
  rank \<open>r\<close> sees it: cells \<open>r * count\<close> up to \<open>(r + 1) * count\<close> of the buffer of rank 0
  arrive in \<^verbatim>\<open>inner_data\<close>.
\<close>

definition MPI_Scatter :: "double list \<Rightarrow> nat \<Rightarrow> double list \<Rightarrow> nat \<Rightarrow> double list" where
  "MPI_Scatter root_data count inner_data r =
     (let chunk = take count (drop (r * count) root_data)
      in chunk @ drop (length chunk) inner_data)"

text \<open>Lines 117--119: the received block goes to the interior of the padded tile.\<close>

definition copy_to_interior :: "double list \<Rightarrow> double list \<Rightarrow> nat \<Rightarrow> nat \<Rightarrow> nat \<Rightarrow> double list" where
  "copy_to_interior d inner_data nx_local ny_local ny_in =
     fold (\<lambda>i d. memcpy d (idx (ny_local + 2) (i + 1) 1) inner_data (idx ny_local i 0) ny_in) [0..<nx_local] d"

text \<open>
  Lines 122--125: left and right ghost columns of the interior rows. The body of the loop
  for row \<open>i\<close>, and the loop.
\<close>

definition boundary_columns_step :: "nat \<Rightarrow> nat \<Rightarrow> nat \<Rightarrow> double list \<Rightarrow> double list" where
  "boundary_columns_step ny_local ny_in i d =
     (let d = d[idx (ny_local + 2) i 0 := d ! idx (ny_local + 2) i 1]
      in d[idx (ny_local + 2) i (ny_in + 1) := d ! idx (ny_local + 2) i ny_in])"

definition set_boundary_columns :: "double list \<Rightarrow> nat \<Rightarrow> nat \<Rightarrow> nat \<Rightarrow> double list" where
  "set_boundary_columns d nx_local ny_local ny_in =
     fold (boundary_columns_step ny_local ny_in) [1..<nx_local + 1] d"

text \<open>
  Lines 126--130: top and bottom ghost rows, over the whole padded width. The body of the
  loop for column \<open>j\<close>, and the loop.
\<close>

definition boundary_rows_step :: "nat \<Rightarrow> nat \<Rightarrow> nat \<Rightarrow> double list \<Rightarrow> double list" where
  "boundary_rows_step nx_local ny_local j d =
     (let d = d[idx (ny_local + 2) 0 j := d ! idx (ny_local + 2) 1 j]
      in d[idx (ny_local + 2) (nx_local + 1) j := d ! idx (ny_local + 2) nx_local j])"

definition set_boundary_rows :: "double list \<Rightarrow> nat \<Rightarrow> nat \<Rightarrow> nat \<Rightarrow> double list" where
  "set_boundary_rows d nx_local ny_local ny_in =
     fold (boundary_rows_step nx_local ny_local) [0..<ny_in + 2] d"

text \<open>
  \<^verbatim>\<open>read_field\<close> as one process runs it. \<open>opened\<close> is what \<^verbatim>\<open>fopen\<close> gives: the text of the
  file, or \<open>None\<close> for the null pointer. \<open>scan_lf rest k\<close> is the value that the \<open>k\<close>-th
  \<^verbatim>\<open>fscanf(fp, "%lf", ...)\<close> leaves in its cell of \<^verbatim>\<open>full_data\<close> (reading decimal text as a
  floating-point number is outside this model). Every process parses the same file, so the
  buffer that rank 0 scatters is known to the model of every rank. The three heaps are
  the contents of the fresh blocks.
\<close>

definition read_field ::
  "(parallel_data \<Rightarrow> int32 \<Rightarrow> int32) \<Rightarrow> (string \<Rightarrow> nat \<Rightarrow> double) \<Rightarrow>
   (nat \<Rightarrow> double) \<Rightarrow> (nat \<Rightarrow> double) \<Rightarrow> (nat \<Rightarrow> double) \<Rightarrow>
   parallel_data \<Rightarrow> string option \<Rightarrow>
   event list \<times> (field \<times> field \<times> parallel_data) outcome" where
  "read_field local_rows scan_lf heap1 heap2 heap3 env opened =
     (case opened of
        None \<Rightarrow> ([], Undefined_behaviour)
      | Some text \<Rightarrow>
          let (count, stored, rest) = fscanf_header text
          in if sint count < 2
             then ([Stderr (''Error while reading the input file!'' @ [CHR 0x0A]),
                    Call_MPI_Abort (- 1)], Aborted)
             else
               let nx_in = stored ! 0; ny_in = stored ! 1;
                   parallel = parallel_setup env nx_in ny_in;
                   temperature1 = set_field_dimensions local_rows nx_in ny_in parallel;
                   temperature2 = set_field_dimensions local_rows nx_in ny_in parallel;
                   temperature1 = temperature1
                     \<lparr>data := malloc_2d heap1 (nx temperature1 + 2) (ny temperature1 + 2)\<rparr>;
                   temperature2 = temperature2
                     \<lparr>data := malloc_2d heap2 (nx temperature2 + 2) (ny temperature2 + 2)\<rparr>;
                   inner_data = malloc_2d heap3 (nx temperature1) (ny temperature1);
                   root_data = map (scan_lf rest) [0..<nat (sint nx_in) * nat (sint ny_in)];
                   nx_local = nx temperature1;
                   inner_data = MPI_Scatter root_data (nat (sint (nx_local * ny_in))) inner_data
                                  (nat (sint (rank parallel)));
                   d = copy_to_interior (data temperature1) inner_data (nat (sint nx_local))
                         (nat (sint (ny temperature1))) (nat (sint ny_in));
                   d = set_boundary_columns d (nat (sint nx_local))
                         (nat (sint (ny temperature1))) (nat (sint ny_in));
                   d = set_boundary_rows d (nat (sint nx_local))
                         (nat (sint (ny temperature1))) (nat (sint ny_in));
                   temperature1 = temperature1\<lparr>data := d\<rparr>;
                   temperature2 = copy_field temperature1 temperature2
               in ([Call_MPI_Scatter (nx_local * ny_in)],
                   Completed (temperature1, temperature2, parallel)))"

section \<open>Notions used to state the results\<close>

text \<open>The number of cells of a padded tile with \<open>n\<close> interior rows and \<open>m\<close> interior columns.\<close>

definition tile_cells :: "int32 \<Rightarrow> int32 \<Rightarrow> nat" where
  "tile_cells n m = nat ((sint n + 2) * (sint m + 2))"

text \<open>Every tile of the group is an \<open>n \<times> m\<close> tile with its complete padded block.\<close>

definition uniform_tiles :: "field list \<Rightarrow> int32 \<Rightarrow> int32 \<Rightarrow> bool" where
  "uniform_tiles ts n m \<longleftrightarrow>
     (\<forall>t \<in> set ts. nx t = n \<and> ny t = m \<and> length (data t) = tile_cells n m)"

text \<open>
  The group is a uniform row decomposition of a \<open>rows \<times> m\<close> grid under the policy
  \<open>local_rows\<close>: all tiles are \<open>n \<times> m\<close>, they carry the global dimensions, and the policy
  gives every process \<open>n\<close> rows.
\<close>

definition even_group ::
  "(parallel_data \<Rightarrow> int32 \<Rightarrow> int32) \<Rightarrow> field list \<Rightarrow> int32 \<Rightarrow> int32 \<Rightarrow> int32 \<Rightarrow> bool" where
  "even_group local_rows ts rows n m \<longleftrightarrow>
     uniform_tiles ts n m \<and>
     (\<forall>r < length ts. nx_full (ts ! r) = rows \<and> ny_full (ts ! r) = m \<and>
        local_rows \<lparr>size_p = word_of_nat (length ts), rank = word_of_nat r\<rparr> rows = n)"

text \<open>
  The tile size and the offsets of the ranks below \<open>P\<close> are representable in \<^verbatim>\<open>int\<close>: the
  cell count of a tile and the mathematical offset of the last rank are below \<open>2^31\<close>.
\<close>

definition offsets_fit :: "nat \<Rightarrow> int32 \<Rightarrow> int32 \<Rightarrow> bool" where
  "offsets_fit P n m \<longleftrightarrow>
     0 \<le> sint n \<and> 0 \<le> sint m \<and> (sint n + 2) * (sint m + 2) < 2 ^ 31 \<and>
     (0 < P \<longrightarrow> spec_offset (int P - 1) (sint n) (sint m) < 2 ^ 31)"

text \<open>The three header integers, and the tile blocks in rank order, as bytes.\<close>

definition checkpoint_header :: "field \<Rightarrow> int32 \<Rightarrow> byte list" where
  "checkpoint_header t iter = bytes_of_int (nx_full t) @ bytes_of_int (ny_full t) @ bytes_of_int iter"

definition tiles_bytes :: "field list \<Rightarrow> byte list" where
  "tiles_bytes ts = concat (map (\<lambda>t. bytes_of_doubles (data t)) ts)"

text \<open>The bytes of the checkpoint before the write; none when the file does not exist.\<close>

definition existing :: "file_contents option \<Rightarrow> file_contents" where
  "existing fs = (case fs of None \<Rightarrow> [] | Some f \<Rightarrow> f)"

text \<open>
  A tile with at least one interior row and one interior column whose padded cell count
  is representable in \<^verbatim>\<open>int\<close>.
\<close>

definition tile_fits :: "int32 \<Rightarrow> int32 \<Rightarrow> bool" where
  "tile_fits n m \<longleftrightarrow> 1 \<le> sint n \<and> 1 \<le> sint m \<and> (sint n + 2) * (sint m + 2) < 2 ^ 31"

text \<open>
  The ghost invariant of the data model, for the block \<open>d\<close> of a tile with \<open>n \<times> m\<close> interior
  cells: the left and right ghost cell of every interior row equal the adjacent interior
  cell, and the top and bottom ghost rows equal the adjacent interior rows over the whole
  padded width.
\<close>

definition ghost_mirrored :: "double list \<Rightarrow> nat \<Rightarrow> nat \<Rightarrow> bool" where
  "ghost_mirrored d n m \<longleftrightarrow>
     (\<forall>i \<in> {1..n}. d ! idx (m + 2) i 0 = d ! idx (m + 2) i 1 \<and>
                   d ! idx (m + 2) i (m + 1) = d ! idx (m + 2) i m) \<and>
     (\<forall>j < m + 2. d ! idx (m + 2) 0 j = d ! idx (m + 2) 1 j \<and>
                  d ! idx (m + 2) (n + 1) j = d ! idx (m + 2) n j)"

text \<open>A data section in which every value reads as zero, for the examples.\<close>

definition zero_scan :: "string \<Rightarrow> nat \<Rightarrow> double" where
  "zero_scan rest k = 0"

text \<open>
  The counts of the gather are representable in \<^verbatim>\<open>int\<close>: the interior cell count of a tile
  (the message size), the global row count \<open>n P\<close> and the process count.
\<close>

definition gather_fits :: "nat \<Rightarrow> int32 \<Rightarrow> int32 \<Rightarrow> bool" where
  "gather_fits P n m \<longleftrightarrow>
     0 \<le> sint n \<and> 0 \<le> sint m \<and> sint n * sint m < 2 ^ 31 \<and>
     sint n * int P < 2 ^ 31 \<and> int P < 2 ^ 31"

text \<open>The set of byte positions of a range.\<close>

definition byte_range :: "(nat \<times> nat) option \<Rightarrow> nat set" where
  "byte_range x = (case x of None \<Rightarrow> {} | Some (off, len) \<Rightarrow> {off..<off + len})"

text \<open>Fresh memory that happens to hold zeros, for the examples.\<close>

definition zero_heap :: "nat \<Rightarrow> double" where
  "zero_heap i = 0"

section \<open>Facts about the conversions\<close>

lemma int_of_size_t_of_int: "int_of_size_t (word_of_int k) = word_of_int k"
  unfolding int_of_size_t_def
  by (simp add: ucast_eq uint_word_of_int_eq word_of_int_eq_iff)

lemma size_t_of_int_wi: "size_t_of_int x = word_of_int (sint x)"
  unfolding size_t_of_int_def by (rule scast_eq)

lemma write_restart_disp_closed:
  "write_restart_disp r n m = 12 + r * (n + 2) * (m + 2) * 8"
proof -
  have a: "(3 * sizeof_int :: size_t) = word_of_int 12"
    by (simp add: sizeof_int_def)
  have b: "sizeof_double = word_of_int 8"
    by (simp add: sizeof_double_def)
  show ?thesis
    unfolding write_restart_disp_def Let_def a b size_t_of_int_wi wi_homs int_of_size_t_of_int
    by (simp add: wi_hom_syms mult_ac)
qed

lemma read_restart_disp_closed:
  "read_restart_disp r n m = 12 + r * (n + 2) * (m + 2) * 8"
proof -
  have a: "(3 * sizeof_int :: size_t) = word_of_int 12"
    by (simp add: sizeof_int_def)
  have b: "sizeof_double = word_of_int 8"
    by (simp add: sizeof_double_def)
  show ?thesis
    unfolding read_restart_disp_def Let_def a b size_t_of_int_wi wi_homs int_of_size_t_of_int
    by (simp add: wi_hom_syms mult_ac)
qed

lemma disp_word_of_spec_offset:
  "(12 + r * (n + 2) * (m + 2) * 8 :: int32) =
     word_of_int (spec_offset (sint r) (sint n) (sint m))"
  by (simp add: spec_offset_def spec_header_bytes_def spec_tile_bytes_def wi_hom_syms)

lemma sint_write_restart_disp:
  "sint (write_restart_disp r n m) =
     signed_take_bit 31 (spec_offset (sint r) (sint n) (sint m))"
  unfolding write_restart_disp_closed disp_word_of_spec_offset
  by (simp only: sint_sbintrunc') simp

lemma sint_read_restart_disp:
  "sint (read_restart_disp r n m) =
     signed_take_bit 31 (spec_offset (sint r) (sint n) (sint m))"
  unfolding read_restart_disp_closed disp_word_of_spec_offset
  by (simp only: sint_sbintrunc') simp

lemma spec_offset_nonneg:
  "0 \<le> r \<Longrightarrow> 0 \<le> n \<Longrightarrow> 0 \<le> m \<Longrightarrow> 0 \<le> spec_offset r n m"
  by (simp add: spec_offset_def spec_header_bytes_def spec_tile_bytes_def)

section \<open>The two offset computations agree\<close>

text \<open>
  Claim C3. For every rank and every pair of local tile dimensions, the byte offset computed
  by \<^verbatim>\<open>read_restart\<close> equals the one computed by \<^verbatim>\<open>write_restart\<close>, and both are the value
  of the C expression \<^verbatim>\<open>3*sizeof(int) + rank*(nx+2)*(ny+2)*sizeof(double)\<close> in the \<^verbatim>\<open>int\<close>
  variable \<^verbatim>\<open>disp\<close>: the two computations are one function of rank and tile dimensions.
\<close>

theorem restart_disp_same_function:
  "read_restart_disp r n m = write_restart_disp r n m \<and>
   write_restart_disp r n m = 3 * 4 + r * (n + 2) * (m + 2) * 8 \<and>
   read_restart_disp = write_restart_disp"
proof -
  have "read_restart_disp r n m = write_restart_disp r n m" for r n m
    by (simp only: read_restart_disp_closed write_restart_disp_closed)
  then have "read_restart_disp = write_restart_disp"
    by (intro ext)
  then show ?thesis
    by (simp add: write_restart_disp_closed)
qed

section \<open>The offset is a 32-bit signed quantity\<close>

text \<open>
  Claim C10. The checkpoint offset of \<^verbatim>\<open>write_restart\<close> and of \<^verbatim>\<open>read_restart\<close> lives in the
  \<^verbatim>\<open>int\<close> variable \<^verbatim>\<open>disp\<close>: as a signed number it is the mathematical offset
  \<open>3 \<times> 4 + rank \<times> (local_rows + 2) \<times> (local_cols + 2) \<times> 8\<close> reduced modulo \<open>2^32\<close> into the
  range \<open>[-2^31, 2^31)\<close>. For a rank and tile dimensions that are not negative it equals the
  mathematical offset exactly when that offset is below \<open>2^31\<close>.
\<close>

theorem restart_disp_wraps_32bit:
  assumes "0 \<le> sint r" and "0 \<le> sint n" and "0 \<le> sint m"
  shows "sint (write_restart_disp r n m) =
           (spec_offset (sint r) (sint n) (sint m) + 2 ^ 31) mod 2 ^ 32 - 2 ^ 31 \<and>
         sint (read_restart_disp r n m) = sint (write_restart_disp r n m) \<and>
         (sint (write_restart_disp r n m) = spec_offset (sint r) (sint n) (sint m)
            \<longleftrightarrow> spec_offset (sint r) (sint n) (sint m) < 2 ^ 31)"
proof -
  let ?v = "spec_offset (sint r) (sint n) (sint m)"
  have w: "sint (write_restart_disp r n m) = signed_take_bit 31 ?v"
    by (rule sint_write_restart_disp)
  have a: "sint (write_restart_disp r n m) = (?v + 2 ^ 31) mod 2 ^ 32 - 2 ^ 31"
    unfolding w by (simp add: signed_take_bit_eq_take_bit_shift take_bit_eq_mod)
  have b: "sint (read_restart_disp r n m) = sint (write_restart_disp r n m)"
    by (simp only: sint_read_restart_disp sint_write_restart_disp)
  have "0 \<le> ?v"
    using assms by (rule spec_offset_nonneg)
  then have c: "sint (write_restart_disp r n m) = ?v \<longleftrightarrow> ?v < 2 ^ 31"
    unfolding w by (simp add: signed_take_bit_int_eq_self_iff)
  from a b c show ?thesis
    by (intro conjI)
qed

theorem restart_disp_wraps_32bit_witness:
  "0 \<le> sint (2 :: int32) \<and> 0 \<le> sint (16382 :: int32) \<and>
   spec_offset (sint (2 :: int32)) (sint (16382 :: int32)) (sint (16382 :: int32)) = 2 ^ 32 + 12 \<and>
   sint (write_restart_disp 2 16382 16382) = 12 \<and>
   sint (read_restart_disp 2 16382 16382) = 12"
proof -
  have r: "0 \<le> sint (2 :: int32)" and n: "0 \<le> sint (16382 :: int32)"
    by simp_all
  have v: "spec_offset (sint (2 :: int32)) (sint (16382 :: int32)) (sint (16382 :: int32)) = 2 ^ 32 + 12"
    by (simp add: spec_offset_def spec_header_bytes_def spec_tile_bytes_def)
  show ?thesis
    using restart_disp_wraps_32bit [OF r n n] r n unfolding v by simp
qed

section \<open>Facts about the object representation\<close>

lemma length_le_bytes: "length (le_bytes n x) = n"
  by (induction n arbitrary: x) simp_all

lemma unat_byte_of_mod: "unat (word_of_nat (x mod 256) :: byte) = x mod 256"
  by (simp add: unat_of_nat)

lemma le_value_le_bytes: "x < 256 ^ n \<Longrightarrow> le_value (le_bytes n x) = x"
proof (induction n arbitrary: x)
  case 0
  then show ?case by simp
next
  case (Suc n)
  from Suc.prems have "x div 256 < 256 ^ n"
    by (simp add: less_mult_imp_div_less mult.commute)
  then have "le_value (le_bytes n (x div 256)) = x div 256"
    by (rule Suc.IH)
  then show ?case
    by (simp add: unat_byte_of_mod)
qed

lemma int_of_bytes_of_int: "int_of_bytes (bytes_of_int v) = v"
proof -
  have "unat v < 256 ^ 4"
    using unsigned_less [of v, where 'a = nat] by simp
  then show ?thesis
    by (simp add: int_of_bytes_def bytes_of_int_def le_value_le_bytes)
qed

lemma double_of_bytes_of_double: "double_of_bytes (bytes_of_double v) = v"
proof -
  have "unat v < 256 ^ 8"
    using unsigned_less [of v, where 'a = nat] by simp
  then show ?thesis
    by (simp add: double_of_bytes_def bytes_of_double_def le_value_le_bytes)
qed

lemma length_bytes_of_int: "length (bytes_of_int v) = 4"
  by (simp add: bytes_of_int_def length_le_bytes)

lemma length_bytes_of_double: "length (bytes_of_double v) = 8"
  by (simp add: bytes_of_double_def length_le_bytes)

lemma bytes_of_doubles_Nil: "bytes_of_doubles [] = []"
  by (simp add: bytes_of_doubles_def)

lemma bytes_of_doubles_Cons: "bytes_of_doubles (x # xs) = bytes_of_double x @ bytes_of_doubles xs"
  by (simp add: bytes_of_doubles_def)

lemma bytes_of_doubles_append:
  "bytes_of_doubles (xs @ ys) = bytes_of_doubles xs @ bytes_of_doubles ys"
  by (simp add: bytes_of_doubles_def)

lemma length_bytes_of_doubles: "length (bytes_of_doubles xs) = 8 * length xs"
  by (induction xs) (simp_all add: bytes_of_doubles_Nil bytes_of_doubles_Cons length_bytes_of_double)

lemma doubles_of_bytes_of_doubles:
  "doubles_of_bytes (length xs) (bytes_of_doubles xs @ rest) = xs"
  by (induction xs)
     (simp_all add: bytes_of_doubles_Nil bytes_of_doubles_Cons length_bytes_of_double
        double_of_bytes_of_double)

section \<open>Facts about positioned file access\<close>

lemma pwrite_at_boundary:
  "length a = off \<Longrightarrow> pwrite (a @ rest) off bs = a @ bs @ drop (length bs) rest"
  by (simp add: pwrite_def)

lemma pread_at_boundary:
  "length a = off \<Longrightarrow> pread (a @ bs @ rest) off (length bs) = bs"
  by (simp add: pread_def)

lemma pread_after_prefix:
  "length a = k \<Longrightarrow> pread (a @ body) (k + off) n = take n (drop off body)"
  by (simp add: pread_def)

section \<open>Arithmetic inside the range of \<^verbatim>\<open>int\<close>\<close>

lemma spec_offset_nat:
  "0 \<le> sint n \<Longrightarrow> 0 \<le> sint m \<Longrightarrow>
   spec_offset (int r) (sint n) (sint m) = int (12 + r * (8 * tile_cells n m))"
  by (simp add: spec_offset_def spec_header_bytes_def spec_tile_bytes_def tile_cells_def)

lemma fit_offset_bound:
  assumes "offsets_fit P n m" and "r < P"
  shows "12 + r * (8 * tile_cells n m) < 2 ^ 31"
proof -
  from assms have n: "0 \<le> sint n" and m: "0 \<le> sint m"
    by (simp_all add: offsets_fit_def)
  from assms obtain k where k: "P = Suc k"
    by (cases P) simp_all
  then have "int P - 1 = int k"
    by simp
  then have "int (12 + k * (8 * tile_cells n m)) < 2 ^ 31"
    using assms(1) spec_offset_nat [OF n m, of k] k by (simp add: offsets_fit_def)
  then have K: "12 + k * (8 * tile_cells n m) < 2 ^ 31"
    by (simp only: of_nat_less_numeral_power_cancel_iff)
  from \<open>r < P\<close> k have "r * (8 * tile_cells n m) \<le> k * (8 * tile_cells n m)"
    by (intro mult_le_mono1) simp
  then have "12 + r * (8 * tile_cells n m) \<le> 12 + k * (8 * tile_cells n m)"
    by simp
  then show ?thesis
    using K by (rule le_less_trans)
qed

lemma fit_cells_pos:
  assumes "0 \<le> sint n" and "0 \<le> sint m"
  shows "1 \<le> tile_cells n m"
proof -
  from assms have "1 * 1 \<le> (sint n + 2) * (sint m + 2)"
    by (intro mult_mono) simp_all
  then show ?thesis
    by (simp add: tile_cells_def)
qed

lemma fit_rank_less:
  assumes "offsets_fit P n m" and "r < P"
  shows "r < 2 ^ 31"
proof -
  from assms have n: "0 \<le> sint n" and m: "0 \<le> sint m"
    by (simp_all add: offsets_fit_def)
  have "r \<le> r * (8 * tile_cells n m)"
    using fit_cells_pos [OF n m] by simp
  moreover have "r * (8 * tile_cells n m) < 2 ^ 31"
    using fit_offset_bound [OF assms] by simp
  ultimately show ?thesis by (rule le_less_trans)
qed

lemma offsets_fit_mono:
  assumes "offsets_fit P n m" and "r < P"
  shows "offsets_fit (Suc r) n m"
proof -
  from assms have n: "0 \<le> sint n" and m: "0 \<le> sint m"
    by (simp_all add: offsets_fit_def)
  have "int (12 + r * (8 * tile_cells n m)) < 2 ^ 31"
    using fit_offset_bound [OF assms] by (simp only: of_nat_less_numeral_power_cancel_iff)
  then show ?thesis
    using assms(1) spec_offset_nat [OF n m, of r] by (simp add: offsets_fit_def)
qed

lemma sint_rank:
  assumes "r < (2::nat) ^ 31"
  shows "sint (word_of_nat r :: int32) = int r"
proof -
  have "sint (word_of_int (int r) :: int32) = signed_take_bit 31 (int r)"
    by (simp only: sint_sbintrunc') simp
  moreover have "signed_take_bit 31 (int r) = int r"
    using assms by (intro signed_take_bit_int_eq_self) simp_all
  ultimately show ?thesis by simp
qed

lemma word_of_nat_rank_eq_0:
  assumes "r < (2::nat) ^ 31"
  shows "(word_of_nat r :: int32) = 0 \<longleftrightarrow> r = 0"
proof
  assume "(word_of_nat r :: int32) = 0"
  then have "sint (word_of_nat r :: int32) = 0" by simp
  then show "r = 0" using sint_rank [OF assms] by simp
qed simp

lemma sint_size:
  assumes "offsets_fit P n m"
  shows "sint ((n + 2) * (m + 2)) = int (tile_cells n m)"
proof -
  from assms have n: "0 \<le> sint n" and m: "0 \<le> sint m"
    by (simp_all add: offsets_fit_def)
  have eq: "(n + 2) * (m + 2) = word_of_int ((sint n + 2) * (sint m + 2))"
    by (simp add: wi_hom_syms)
  have nn: "0 \<le> (sint n + 2) * (sint m + 2)"
    using n m by simp
  have "(sint n + 2) * (sint m + 2) < 2 ^ 31"
    using assms by (simp add: offsets_fit_def)
  then have "signed_take_bit 31 ((sint n + 2) * (sint m + 2)) = (sint n + 2) * (sint m + 2)"
    using nn by (intro signed_take_bit_int_eq_self) simp_all
  then show ?thesis
    unfolding eq using nn by (simp only: sint_sbintrunc') (simp add: tile_cells_def)
qed

lemma sint_disp:
  assumes "offsets_fit P n m" and "r < P"
  shows "sint (write_restart_disp (word_of_nat r) n m) = int (12 + r * (8 * tile_cells n m))"
proof -
  from assms have n: "0 \<le> sint n" and m: "0 \<le> sint m"
    by (simp_all add: offsets_fit_def)
  have r: "sint (word_of_nat r :: int32) = int r"
    using fit_rank_less [OF assms] by (rule sint_rank)
  have "12 + r * (8 * tile_cells n m) < 2 ^ 31"
    using fit_offset_bound [OF assms] by simp
  then have "int (12 + r * (8 * tile_cells n m)) < 2 ^ 31"
    by (simp only: of_nat_less_numeral_power_cancel_iff)
  then have "signed_take_bit 31 (int (12 + r * (8 * tile_cells n m))) = int (12 + r * (8 * tile_cells n m))"
    by (intro signed_take_bit_int_eq_self) simp_all
  then show ?thesis
    by (simp only: sint_write_restart_disp r spec_offset_nat [OF n m])
qed

lemma sint_plus_2:
  assumes "offsets_fit P n m"
  shows "sint (n + 2) = sint n + 2" and "sint (m + 2) = sint m + 2"
proof -
  from assms have n: "0 \<le> sint n" and m: "0 \<le> sint m"
    and c: "(sint n + 2) * (sint m + 2) < 2 ^ 31"
    by (simp_all add: offsets_fit_def)
  have "(sint n + 2) * 1 \<le> (sint n + 2) * (sint m + 2)"
    using n m by (intro mult_left_mono) simp_all
  then have "sint n + 2 \<le> (sint n + 2) * (sint m + 2)"
    by simp
  then have nb: "sint n + 2 < 2 ^ 31"
    using c by (rule le_less_trans)
  have "1 * (sint m + 2) \<le> (sint n + 2) * (sint m + 2)"
    using n m by (intro mult_right_mono) simp_all
  then have "sint m + 2 \<le> (sint n + 2) * (sint m + 2)"
    by simp
  then have mb: "sint m + 2 < 2 ^ 31"
    using c by (rule le_less_trans)
  have wn: "n + 2 = word_of_int (sint n + 2)" and wm: "m + 2 = word_of_int (sint m + 2)"
    by (simp_all add: wi_hom_syms)
  have "signed_take_bit 31 (sint n + 2) = sint n + 2"
    using n nb by (intro signed_take_bit_int_eq_self) simp_all
  then show "sint (n + 2) = sint n + 2"
    unfolding wn by (simp only: sint_sbintrunc') simp
  have "signed_take_bit 31 (sint m + 2) = sint m + 2"
    using m mb by (intro signed_take_bit_int_eq_self) simp_all
  then show "sint (m + 2) = sint m + 2"
    unfolding wm by (simp only: sint_sbintrunc') simp
qed

lemma length_malloc_2d_tile:
  assumes "offsets_fit P n m"
  shows "length (malloc_2d heap (n + 2) (m + 2)) = tile_cells n m"
proof -
  from assms have n: "0 \<le> sint n" and m: "0 \<le> sint m"
    by (simp_all add: offsets_fit_def)
  show ?thesis
    using n m by (simp add: malloc_2d_def sint_plus_2 [OF assms] tile_cells_def nat_mult_distrib)
qed

section \<open>The layout that the checkpoint writer produces\<close>

lemma length_checkpoint_header: "length (checkpoint_header t iter) = 12"
  by (simp add: checkpoint_header_def length_bytes_of_int)

lemma header_writes:
  "MPI_File_write_int (MPI_File_write_int (MPI_File_write_int
       \<lparr>contents = old, pointer = 0\<rparr> a) b) c
   = \<lparr>contents = bytes_of_int a @ bytes_of_int b @ bytes_of_int c @ drop 12 old, pointer = 12\<rparr>"
proof -
  have 1: "pwrite old 0 (bytes_of_int a) = bytes_of_int a @ drop 4 old"
    using pwrite_at_boundary [of "[]" 0 old "bytes_of_int a"]
    by (simp add: length_bytes_of_int)
  have 2: "pwrite (bytes_of_int a @ drop 4 old) 4 (bytes_of_int b)
             = bytes_of_int a @ bytes_of_int b @ drop 8 old"
    using pwrite_at_boundary [of "bytes_of_int a" 4 "drop 4 old" "bytes_of_int b"]
    by (simp add: length_bytes_of_int)
  have 3: "pwrite (bytes_of_int a @ bytes_of_int b @ drop 8 old) 8 (bytes_of_int c)
             = bytes_of_int a @ bytes_of_int b @ bytes_of_int c @ drop 12 old"
    using pwrite_at_boundary [of "bytes_of_int a @ bytes_of_int b" 8 "drop 8 old" "bytes_of_int c"]
    by (simp add: length_bytes_of_int)
  show ?thesis
    by (simp add: MPI_File_write_int_def 1 2 3)
qed

lemma length_tiles_bytes:
  "uniform_tiles ts n m \<Longrightarrow> length (tiles_bytes ts) = length ts * (8 * tile_cells n m)"
  by (induction ts) (simp_all add: tiles_bytes_def uniform_tiles_def length_bytes_of_doubles)

lemma uniform_tiles_take: "uniform_tiles ts n m \<Longrightarrow> uniform_tiles (take k ts) n m"
  by (auto simp: uniform_tiles_def dest: in_set_takeD)

lemma tiles_bytes_take_Suc:
  "r < length ts \<Longrightarrow>
   tiles_bytes (take (Suc r) ts) = tiles_bytes (take r ts) @ bytes_of_doubles (data (ts ! r))"
  by (simp add: tiles_bytes_def take_Suc_conv_app_nth)

lemma tiles_bytes_split:
  assumes "r < length ts"
  shows "tiles_bytes ts = tiles_bytes (take r ts) @ bytes_of_doubles (data (ts ! r)) @
           tiles_bytes (drop (Suc r) ts)"
proof -
  from assms have "ts = take r ts @ ts ! r # drop (Suc r) ts"
    by (simp add: id_take_nth_drop)
  then have "tiles_bytes ts = tiles_bytes (take r ts @ ts ! r # drop (Suc r) ts)"
    by simp
  then show ?thesis
    by (simp add: tiles_bytes_def)
qed

text \<open>A collective write whose offset is the end of a prefix of the file.\<close>

lemma write_at_all_boundary:
  assumes d: "sint disp = int (length a)" and c: "sint count = int (length buf)"
  shows "MPI_File_write_at_all \<lparr>contents = a @ rest, pointer = p\<rparr> disp buf count
         = \<lparr>contents = a @ bytes_of_doubles buf @ drop (8 * length buf) rest, pointer = p\<rparr>"
proof -
  have dn: "nat (sint disp) = length a" and dp: "\<not> sint disp < 0"
    by (simp_all only: d nat_int)
  have cn: "nat (sint count) = length buf" and cp: "\<not> sint count < 0"
    by (simp_all only: c nat_int)
  have "pwrite (a @ rest) (length a) (bytes_of_doubles buf)
          = a @ bytes_of_doubles buf @ drop (8 * length buf) rest"
    by (simp add: pwrite_at_boundary length_bytes_of_doubles)
  then show ?thesis
    unfolding MPI_File_write_at_all_def dn cn using dp cp by simp
qed

lemma write_at_all_rejected:
  "sint disp < 0 \<Longrightarrow> MPI_File_write_at_all fp disp buf count = fp"
  by (simp add: MPI_File_write_at_all_def)

text \<open>The matching collective read.\<close>

lemma read_at_all_boundary:
  assumes d: "sint disp = int (length a)" and c: "sint count = int (length xs)"
    and buf: "length buf = length xs"
  shows "MPI_File_read_at_all \<lparr>contents = a @ bytes_of_doubles xs @ rest, pointer = p\<rparr> disp buf count
         = xs"
proof -
  have dn: "nat (sint disp) = length a" and dp: "\<not> sint disp < 0"
    by (simp_all only: d nat_int)
  have cn: "nat (sint count) = length xs" and cp: "\<not> sint count < 0"
    by (simp_all only: c nat_int)
  have "pread (a @ bytes_of_doubles xs @ rest) (length a) (length (bytes_of_doubles xs))
          = bytes_of_doubles xs"
    by (rule pread_at_boundary) simp
  then have rd: "pread (a @ bytes_of_doubles xs @ rest) (length a) (8 * length xs) = bytes_of_doubles xs"
    by (simp add: length_bytes_of_doubles)
  have "doubles_of_bytes (length xs) (bytes_of_doubles xs @ []) = xs"
    by (rule doubles_of_bytes_of_doubles)
  then show ?thesis
    unfolding MPI_File_read_at_all_def dn cn using dp cp
    by (simp add: rd Let_def length_bytes_of_doubles buf)
qed

text \<open>One process of the writer, in terms of the file layout.\<close>

lemma write_restart_rank_0:
  assumes d: "sint (write_restart_disp 0 (nx t) (ny t)) = 12"
    and c: "sint ((nx t + 2) * (ny t + 2)) = int (length (data t))"
    and par: "rank par = 0"
  shows "write_restart t par iter fs
         = Some (checkpoint_header t iter @ bytes_of_doubles (data t) @
                 drop (12 + 8 * length (data t)) (existing fs))"
proof -
  have "sint (write_restart_disp 0 (nx t) (ny t)) = int (length (checkpoint_header t iter))"
    using d by (simp add: length_checkpoint_header)
  from write_at_all_boundary [OF this c, of "drop 12 (existing fs)" 12]
  show ?thesis
    using par
    by (simp add: write_restart_def MPI_File_open_create_wronly_def MPI_File_close_def
        header_writes existing_def checkpoint_header_def add.commute)
qed

lemma write_restart_rank_pos:
  assumes d: "sint (write_restart_disp (rank par) (nx t) (ny t)) = int (length a)"
    and c: "sint ((nx t + 2) * (ny t + 2)) = int (length (data t))"
    and par: "rank par \<noteq> 0"
  shows "write_restart t par iter (Some (a @ rest))
         = Some (a @ bytes_of_doubles (data t) @ drop (8 * length (data t)) rest)"
  using write_at_all_boundary [OF d c, of rest 0] par
  by (simp add: write_restart_def MPI_File_open_create_wronly_def MPI_File_close_def)

lemma write_restart_step:
  assumes fit: "offsets_fit (Suc r) n m"
    and t: "nx t = n" "ny t = m" "length (data t) = tile_cells n m"
    and par: "rank par = word_of_nat r"
    and fs: "r = 0 \<or> fs = Some (a @ drop (12 + r * (8 * tile_cells n m)) old)"
    and a: "r = 0 \<or> length a = 12 + r * (8 * tile_cells n m)"
    and old: "r = 0 \<longrightarrow> existing fs = old \<and> a = checkpoint_header t iter"
  shows "write_restart t par iter fs
         = Some (a @ bytes_of_doubles (data t) @ drop (12 + Suc r * (8 * tile_cells n m)) old)"
proof -
  have r: "r < Suc r" by simp
  have c: "sint ((nx t + 2) * (ny t + 2)) = int (length (data t))"
    using sint_size [OF fit] t by simp
  have d: "sint (write_restart_disp (rank par) (nx t) (ny t)) = int (12 + r * (8 * tile_cells n m))"
    using sint_disp [OF fit r] t par by simp
  have r0: "(word_of_nat r :: int32) = 0 \<longleftrightarrow> r = 0"
    using fit_rank_less [OF fit r] by (rule word_of_nat_rank_eq_0)
  show ?thesis
  proof (cases "r = 0")
    case True
    then show ?thesis
      using write_restart_rank_0 [of t par iter fs] d c par old t(3)
      by (simp add: add.commute)
  next
    case False
    with fs a have fs': "fs = Some (a @ drop (12 + r * (8 * tile_cells n m)) old)"
      and a': "int (12 + r * (8 * tile_cells n m)) = int (length a)"
      by simp_all
    have "rank par \<noteq> 0"
      using False r0 par by simp
    from write_restart_rank_pos [OF d [unfolded a'] c this, of iter "drop (12 + r * (8 * tile_cells n m)) old"]
    show ?thesis
      using t(3) by (simp add: fs' add.commute add.left_commute)
  qed
qed

lemma write_restart_prefix:
  assumes fit: "offsets_fit (length ts) n m" and u: "uniform_tiles ts n m"
  shows "k < length ts \<Longrightarrow>
         fold (\<lambda>r. write_restart (ts ! r) \<lparr>size_p = word_of_nat (length ts), rank = word_of_nat r\<rparr> iter)
           [0..<Suc k] fs
         = Some (checkpoint_header (ts ! 0) iter @ tiles_bytes (take (Suc k) ts) @
                 drop (12 + Suc k * (8 * tile_cells n m)) (existing fs))"
proof (induction k)
  case 0
  then have t: "nx (ts ! 0) = n" "ny (ts ! 0) = m" "length (data (ts ! 0)) = tile_cells n m"
    using u by (simp_all add: uniform_tiles_def)
  have tb: "tiles_bytes (take (Suc 0) ts) = bytes_of_doubles (data (ts ! 0))"
    using 0 by (simp add: tiles_bytes_take_Suc) (simp add: tiles_bytes_def)
  have "write_restart (ts ! 0) \<lparr>size_p = word_of_nat (length ts), rank = word_of_nat 0\<rparr> iter fs
         = Some (checkpoint_header (ts ! 0) iter @ bytes_of_doubles (data (ts ! 0)) @
                 drop (12 + Suc 0 * (8 * tile_cells n m)) (existing fs))"
    using offsets_fit_mono [OF fit 0] t
    by (rule write_restart_step) simp_all
  then show ?case
    by (simp add: tb)
next
  case (Suc k)
  let ?T = "8 * tile_cells n m"
  let ?a = "checkpoint_header (ts ! 0) iter @ tiles_bytes (take (Suc k) ts)"
  from Suc have IH: "fold (\<lambda>r. write_restart (ts ! r) \<lparr>size_p = word_of_nat (length ts), rank = word_of_nat r\<rparr> iter)
           [0..<Suc k] fs
         = Some (?a @ drop (12 + Suc k * ?T) (existing fs))"
    by simp
  from Suc.prems u have t: "nx (ts ! Suc k) = n" "ny (ts ! Suc k) = m"
      "length (data (ts ! Suc k)) = tile_cells n m"
    by (simp_all add: uniform_tiles_def)
  have len: "length ?a = 12 + Suc k * ?T"
    using length_tiles_bytes [OF uniform_tiles_take [OF u, of "Suc k"]] Suc.prems
    by (simp add: length_checkpoint_header)
  have "write_restart (ts ! Suc k) \<lparr>size_p = word_of_nat (length ts), rank = word_of_nat (Suc k)\<rparr> iter
          (Some (?a @ drop (12 + Suc k * ?T) (existing fs)))
         = Some (?a @ bytes_of_doubles (data (ts ! Suc k)) @
                 drop (12 + Suc (Suc k) * ?T) (existing fs))"
    using offsets_fit_mono [OF fit Suc.prems] t
    by (rule write_restart_step) (use len in simp_all)
  then show ?case
    using Suc.prems
    by (simp only: upt_Suc_append [of 0 "Suc k"] le0 fold_append o_apply IH fold.simps id_apply
        tiles_bytes_take_Suc [of "Suc k"] append_assoc)
qed

lemma write_restart_all_layout:
  assumes fit: "offsets_fit (length ts) n m" and u: "uniform_tiles ts n m" and ne: "ts \<noteq> []"
  shows "write_restart_all ts iter fs
         = Some (checkpoint_header (ts ! 0) iter @ tiles_bytes ts @
                 drop (12 + length ts * (8 * tile_cells n m)) (existing fs))"
proof -
  from ne obtain k where k: "length ts = Suc k"
    by (cases ts) simp_all
  then have "k < length ts" by simp
  from write_restart_prefix [OF fit u this, of iter fs] show ?thesis
    unfolding write_restart_all_def k [symmetric] by (simp add: k)
qed

section \<open>What the restart reads from a checkpoint\<close>

lemma read_int_at_boundary:
  assumes "length a = p"
  shows "MPI_File_read_all_int \<lparr>contents = a @ bytes_of_int v @ rest, pointer = p\<rparr> old
         = (v, \<lparr>contents = a @ bytes_of_int v @ rest, pointer = p + 4\<rparr>)"
proof -
  have "pread (a @ bytes_of_int v @ rest) p (length (bytes_of_int v)) = bytes_of_int v"
    using assms by (rule pread_at_boundary)
  then have "pread (a @ bytes_of_int v @ rest) p 4 = bytes_of_int v"
    by (simp add: length_bytes_of_int)
  then show ?thesis
    by (simp add: MPI_File_read_all_int_def length_bytes_of_int int_of_bytes_of_int)
qed

lemma header_reads:
  fixes t :: field
  defines "F \<equiv> \<lambda>iter rest. checkpoint_header t iter @ rest"
  shows "MPI_File_read_all_int \<lparr>contents = F iter rest, pointer = 0\<rparr> rows0
            = (nx_full t, \<lparr>contents = F iter rest, pointer = 4\<rparr>)"
    and "MPI_File_read_all_int \<lparr>contents = F iter rest, pointer = 4\<rparr> cols0
            = (ny_full t, \<lparr>contents = F iter rest, pointer = 8\<rparr>)"
    and "MPI_File_read_all_int \<lparr>contents = F iter rest, pointer = 8\<rparr> iter0
            = (iter, \<lparr>contents = F iter rest, pointer = 12\<rparr>)"
proof -
  let ?a = "bytes_of_int (nx_full t)" and ?b = "bytes_of_int (ny_full t)" and ?c = "bytes_of_int iter"
  have F: "F iter rest = ?a @ ?b @ ?c @ rest"
    by (simp add: F_def checkpoint_header_def)
  show "MPI_File_read_all_int \<lparr>contents = F iter rest, pointer = 0\<rparr> rows0
            = (nx_full t, \<lparr>contents = F iter rest, pointer = 4\<rparr>)"
    unfolding F using read_int_at_boundary [of "[]" 0 "nx_full t" "?b @ ?c @ rest" rows0] by simp
  show "MPI_File_read_all_int \<lparr>contents = F iter rest, pointer = 4\<rparr> cols0
            = (ny_full t, \<lparr>contents = F iter rest, pointer = 8\<rparr>)"
    unfolding F using read_int_at_boundary [of ?a 4 "ny_full t" "?c @ rest" cols0]
    by (simp add: length_bytes_of_int)
  show "MPI_File_read_all_int \<lparr>contents = F iter rest, pointer = 8\<rparr> iter0
            = (iter, \<lparr>contents = F iter rest, pointer = 12\<rparr>)"
    unfolding F using read_int_at_boundary [of "?a @ ?b" 8 iter rest iter0]
    by (simp add: length_bytes_of_int)
qed

text \<open>What one process of the reader does with a file that starts with a header.\<close>

lemma read_restart_unfold:
  "read_restart local_rows heap rows0 cols0 env iter0 (Some (checkpoint_header t0 iter @ body))
   = (let n = local_rows env (nx_full t0); m = ny_full t0
      in Completed
        (\<lparr>nx = n, ny = m, nx_full = nx_full t0, ny_full = m,
          data = MPI_File_read_at_all \<lparr>contents = checkpoint_header t0 iter @ body, pointer = 12\<rparr>
                   (read_restart_disp (rank env) n m) (malloc_2d heap (n + 2) (m + 2))
                   ((n + 2) * (m + 2))\<rparr>,
         env, iter))"
  by (simp add: read_restart_def MPI_File_open_rdonly_def header_reads Let_def
      parallel_setup_def set_field_dimensions_def allocate_field_def)

lemma read_restart_of_block:
  assumes d: "sint (read_restart_disp (rank env) n m) = int (length a)"
    and c: "sint ((n + 2) * (m + 2)) = int (length xs)"
    and buf: "length (malloc_2d heap (n + 2) (m + 2)) = length xs"
    and n: "local_rows env (nx_full t0) = n" and m: "ny_full t0 = m"
    and F: "checkpoint_header t0 iter @ body = a @ bytes_of_doubles xs @ rest"
  shows "read_restart local_rows heap rows0 cols0 env iter0 (Some (checkpoint_header t0 iter @ body))
         = Completed (\<lparr>nx = n, ny = m, nx_full = nx_full t0, ny_full = m, data = xs\<rparr>, env, iter)"
proof -
  have "MPI_File_read_at_all \<lparr>contents = checkpoint_header t0 iter @ body, pointer = 12\<rparr>
          (read_restart_disp (rank env) n m) (malloc_2d heap (n + 2) (m + 2)) ((n + 2) * (m + 2)) = xs"
    unfolding F using d c buf by (rule read_at_all_boundary)
  then show ?thesis
    by (simp only: read_restart_unfold Let_def n m)
qed

lemma read_restart_of_layout:
  assumes fit: "offsets_fit (length ts) n m" and u: "uniform_tiles ts n m" and r: "r < length ts"
    and env: "rank env = word_of_nat r"
    and lr: "local_rows env (nx_full (ts ! 0)) = n"
    and cols: "ny_full (ts ! 0) = m"
  shows "read_restart local_rows heap rows0 cols0 env iter0
           (Some (checkpoint_header (ts ! 0) iter @ tiles_bytes ts @ rest))
         = Completed (\<lparr>nx = n, ny = m, nx_full = nx_full (ts ! 0), ny_full = m, data = data (ts ! r)\<rparr>,
            env, iter)"
proof -
  let ?T = "8 * tile_cells n m"
  let ?a = "checkpoint_header (ts ! 0) iter @ tiles_bytes (take r ts)"
  from u r have t: "length (data (ts ! r)) = tile_cells n m"
    by (simp add: uniform_tiles_def)
  have F: "checkpoint_header (ts ! 0) iter @ tiles_bytes ts @ rest
             = ?a @ bytes_of_doubles (data (ts ! r)) @ (tiles_bytes (drop (Suc r) ts) @ rest)"
    using tiles_bytes_split [OF r] by simp
  have len: "length ?a = 12 + r * ?T"
    using length_tiles_bytes [OF uniform_tiles_take [OF u, of r]] r
    by (simp add: length_checkpoint_header)
  have d: "sint (read_restart_disp (rank env) n m) = int (length ?a)"
    using sint_disp [OF fit r] unfolding len env
    by (simp only: sint_read_restart_disp sint_write_restart_disp)
  have c: "sint ((n + 2) * (m + 2)) = int (length (data (ts ! r)))"
    using sint_size [OF fit] t by simp
  have buf: "length (malloc_2d heap (n + 2) (m + 2)) = length (data (ts ! r))"
    using length_malloc_2d_tile [OF fit] t by simp
  from d c buf lr cols F show ?thesis
    by (rule read_restart_of_block)
qed

section \<open>Round trip while the offsets fit\<close>

text \<open>
  As long as the tile size and every offset are representable in \<^verbatim>\<open>int\<close>, a restart with
  the same process count returns to every rank the tile it wrote, ghost cells included,
  and the iteration number that was written.
\<close>

theorem restart_roundtrip_in_range:
  assumes fit: "offsets_fit (length ts) n m" and g: "even_group local_rows ts rows n m"
    and r: "r < length ts"
  shows "read_restart_all local_rows heap rows0 cols0 (length ts) iter0 (write_restart_all ts iter fs) ! r
         = Completed (ts ! r, \<lparr>size_p = word_of_nat (length ts), rank = word_of_nat r\<rparr>, iter)"
proof -
  let ?env = "\<lparr>size_p = word_of_nat (length ts), rank = word_of_nat r\<rparr>"
  have ne: "ts \<noteq> []" using r by auto
  then have z: "0 < length ts" by simp
  from g have u: "uniform_tiles ts n m"
    by (simp add: even_group_def)
  from g r z have lr: "local_rows ?env (nx_full (ts ! 0)) = n"
    and cols: "ny_full (ts ! 0) = m" and full: "nx_full (ts ! r) = nx_full (ts ! 0)" "ny_full (ts ! r) = m"
    by (simp_all add: even_group_def)
  from u r have t: "nx (ts ! r) = n" "ny (ts ! r) = m"
    by (simp_all add: uniform_tiles_def)
  have "\<lparr>nx = n, ny = m, nx_full = nx_full (ts ! 0), ny_full = m, data = data (ts ! r)\<rparr> = ts ! r"
    using t full by simp
  moreover have "rank ?env = word_of_nat r"
    by simp
  ultimately show ?thesis
    using r read_restart_of_layout [where local_rows = local_rows and env = ?env, OF fit u r _ lr cols]
    by (simp add: read_restart_all_def write_restart_all_layout [OF fit u ne])
qed

section \<open>The byte ranges while the offsets fit\<close>

lemma write_restart_range_fit:
  assumes fit: "offsets_fit P n m" and r: "r < P"
    and t: "nx t = n" "ny t = m" "length (data t) = tile_cells n m"
    and par: "rank par = word_of_nat r"
  shows "write_restart_range t par = Some (12 + r * (8 * tile_cells n m), 8 * tile_cells n m)"
proof -
  have dn: "nat (sint (write_restart_disp (word_of_nat r) n m)) = 12 + r * (8 * tile_cells n m)"
    and dp: "\<not> sint (write_restart_disp (word_of_nat r) n m) < 0"
    by (simp_all only: sint_disp [OF fit r] nat_int)
  have cn: "nat (sint ((n + 2) * (m + 2))) = tile_cells n m"
    and cp: "\<not> sint ((n + 2) * (m + 2)) < 0"
    by (simp_all only: sint_size [OF fit] nat_int)
  show ?thesis
    unfolding write_restart_range_def t(1,2) par Let_def dn cn using dp cp t(3)
    by (simp add: length_bytes_of_doubles)
qed

lemma union_of_blocks:
  "(\<Union>r<P. {H + r * T..<H + Suc r * T}) = {H..<H + P * (T::nat)}"
proof (induction P)
  case 0
  then show ?case by simp
next
  case (Suc P)
  have "{H..<H + P * T} \<union> {H + P * T..<H + Suc P * T} = {H..<H + Suc P * T}"
    by (intro ivl_disj_un) simp_all
  then show ?case
    using Suc by (simp add: lessThan_Suc Un_commute)
qed

lemma blocks_disjoint:
  assumes "r < (q::nat)"
  shows "{H + r * T..<H + Suc r * T} \<inter> {H + q * T..<H + Suc q * T} = {}"
proof -
  from assms have "Suc r * T \<le> q * T"
    by (intro mult_le_mono1) simp
  then show ?thesis by auto
qed

text \<open>
  As long as the tile size and every offset are representable in \<^verbatim>\<open>int\<close>, the ranges that
  the ranks write are the blocks \<open>[12 + r T, 12 + (r + 1) T)\<close>: each begins where the
  previous one ends, they are pairwise disjoint, and together with the 12 header bytes
  they cover the first \<open>12 + P T\<close> bytes of the file.
\<close>

theorem write_ranges_partition_in_range:
  assumes fit: "offsets_fit (length ts) n m" and u: "uniform_tiles ts n m"
  defines "R \<equiv> \<lambda>r. byte_range (write_restart_range (ts ! r)
                      \<lparr>size_p = word_of_nat (length ts), rank = word_of_nat r\<rparr>)"
  shows "\<forall>r < length ts. R r = {12 + r * (8 * tile_cells n m)..<12 + Suc r * (8 * tile_cells n m)}"
    and "\<forall>r < length ts. \<forall>q < length ts. r \<noteq> q \<longrightarrow> R r \<inter> R q = {}"
    and "{0..<12} \<union> (\<Union>r < length ts. R r) = {0..<12 + length ts * (8 * tile_cells n m)}"
proof -
  let ?T = "8 * tile_cells n m"
  show R: "\<forall>r < length ts. R r = {12 + r * ?T..<12 + Suc r * ?T}"
  proof (intro allI impI)
    fix r assume r: "r < length ts"
    with u have t: "nx (ts ! r) = n" "ny (ts ! r) = m" "length (data (ts ! r)) = tile_cells n m"
      by (simp_all add: uniform_tiles_def)
    from write_restart_range_fit [OF fit r t, of "\<lparr>size_p = word_of_nat (length ts), rank = word_of_nat r\<rparr>"]
    show "R r = {12 + r * ?T..<12 + Suc r * ?T}"
      by (simp add: R_def byte_range_def ac_simps)
  qed
  show "\<forall>r < length ts. \<forall>q < length ts. r \<noteq> q \<longrightarrow> R r \<inter> R q = {}"
  proof (intro allI impI)
    fix r q assume rq: "r < length ts" "q < length ts" "r \<noteq> q"
    then consider "r < q" | "q < r" by linarith
    then show "R r \<inter> R q = {}"
    proof cases
      case 1
      then show ?thesis
        using R rq blocks_disjoint [of r q 12 ?T] by simp
    next
      case 2
      then show ?thesis
        using R rq blocks_disjoint [of q r 12 ?T] by (simp add: Int_commute)
    qed
  qed
  have "(\<Union>r < length ts. R r) = (\<Union>r < length ts. {12 + r * ?T..<12 + Suc r * ?T})"
    using R by simp
  also have "\<dots> = {12..<12 + length ts * ?T}"
    by (rule union_of_blocks)
  finally have "(\<Union>r < length ts. R r) = {12..<12 + length ts * ?T}" .
  moreover have "{0..<12} \<union> {12..<12 + length ts * ?T} = {0..<12 + length ts * ?T}"
    by (intro ivl_disj_un) simp_all
  ultimately show "{0..<12} \<union> (\<Union>r < length ts. R r) = {0..<12 + length ts * ?T}"
    by simp
qed

section \<open>A grid whose second offset wraps\<close>

text \<open>
  Two processes, each with a tile of \<open>32766 \<times> 16382\<close> interior cells, from a global grid
  of \<open>65532 \<times> 16382\<close> cells. A padded tile has \<open>32768 \<times> 16384 = 2^29\<close> cells, that is
  \<open>2^32\<close> bytes. The offset of rank 1 is \<open>12 + 2^32\<close>; in the \<^verbatim>\<open>int\<close> variable \<^verbatim>\<open>disp\<close> it is 12,
  the offset of rank 0.
\<close>

lemma wrapped_disp:
  "sint (write_restart_disp 0 32766 16382) = 12"
  "sint (write_restart_disp 1 32766 16382) = 12"
  "sint (read_restart_disp 0 32766 16382) = 12"
  "sint (read_restart_disp 1 32766 16382) = 12"
  "sint ((32766 + 2) * (16382 + 2) :: int32) = 536870912"
  by (simp_all add: write_restart_disp_closed read_restart_disp_closed)

lemma wrapped_malloc: "length (malloc_2d heap 32768 16384) = 536870912"
proof -
  have "offsets_fit 1 32766 16382"
    by (simp add: offsets_fit_def spec_offset_def spec_header_bytes_def spec_tile_bytes_def)
  from length_malloc_2d_tile [OF this, of heap] show ?thesis
    by (simp add: tile_cells_def)
qed

text \<open>
  Claim C1. The claim is that a write followed by a restart with the same process count
  reproduces every tile for every field state and every process count. On the grid above
  the checkpoint holds the header and the tile of rank 1 only, in the place of the tile of
  rank 0, and the restart hands the tile of rank 1 to both ranks: the tile of rank 0 is lost.
\<close>

theorem restart_roundtrip_wrapped_offsets:
  "write_restart_all
     [\<lparr>nx = 32766, ny = 16382, nx_full = 65532, ny_full = 16382, data = replicate 536870912 10\<rparr>,
      \<lparr>nx = 32766, ny = 16382, nx_full = 65532, ny_full = 16382, data = replicate 536870912 11\<rparr>]
     5 None
   = Some (bytes_of_int 65532 @ bytes_of_int 16382 @ bytes_of_int 5 @
           bytes_of_doubles (replicate 536870912 11)) \<and>
   read_restart_all even_rows zero_heap 0 0 2 0
     (write_restart_all
        [\<lparr>nx = 32766, ny = 16382, nx_full = 65532, ny_full = 16382, data = replicate 536870912 10\<rparr>,
         \<lparr>nx = 32766, ny = 16382, nx_full = 65532, ny_full = 16382, data = replicate 536870912 11\<rparr>]
        5 None)
   = [Completed (\<lparr>nx = 32766, ny = 16382, nx_full = 65532, ny_full = 16382,
                   data = replicate 536870912 11\<rparr>, \<lparr>size_p = 2, rank = 0\<rparr>, 5),
      Completed (\<lparr>nx = 32766, ny = 16382, nx_full = 65532, ny_full = 16382,
                   data = replicate 536870912 11\<rparr>, \<lparr>size_p = 2, rank = 1\<rparr>, 5)]"
proof -
  define tile :: "double \<Rightarrow> field" where
    "tile = (\<lambda>v. \<lparr>nx = 32766, ny = 16382, nx_full = 65532, ny_full = 16382,
                     data = replicate 536870912 v\<rparr>)"
  have f: "nx (tile v) = 32766" "ny (tile v) = 16382" "nx_full (tile v) = 65532"
    "ny_full (tile v) = 16382" "length (data (tile v)) = 536870912" for v
    by (simp_all add: tile_def)
  let ?hdr = "checkpoint_header (tile 10) 5"
  have w0: "write_restart (tile 10) \<lparr>size_p = 2, rank = 0\<rparr> 5 None
              = Some (?hdr @ bytes_of_doubles (data (tile 10)))"
    using write_restart_rank_0 [of "tile 10" "\<lparr>size_p = 2, rank = 0\<rparr>" 5 None]
    by (simp add: f wrapped_disp existing_def)
  have w1: "write_restart (tile 11) \<lparr>size_p = 2, rank = 1\<rparr> 5
              (Some (?hdr @ bytes_of_doubles (data (tile 10))))
              = Some (?hdr @ bytes_of_doubles (data (tile 11)))"
    using write_restart_rank_pos [of "\<lparr>size_p = 2, rank = 1\<rparr>" "tile 11" ?hdr 5
        "bytes_of_doubles (data (tile 10))"]
    by (simp add: f wrapped_disp length_checkpoint_header length_bytes_of_doubles)
  have ckpt: "write_restart_all [tile 10, tile 11] 5 None
                = Some (?hdr @ bytes_of_doubles (data (tile 11)))"
    by (simp add: write_restart_all_def numeral_2_eq_2 w0 w1)
  have er: "even_rows \<lparr>size_p = 2, rank = r\<rparr> 65532 = 32766" for r
    by (simp add: even_rows_def)
  have rd: "read_restart even_rows zero_heap 0 0 \<lparr>size_p = 2, rank = r\<rparr> 0
              (Some (?hdr @ bytes_of_doubles (data (tile 11))))
            = Completed (\<lparr>nx = 32766, ny = 16382, nx_full = nx_full (tile 10), ny_full = 16382,
                 data = data (tile 11)\<rparr>, \<lparr>size_p = 2, rank = r\<rparr>, 5)"
    if "r = 0 \<or> r = 1" for r
    using that
    by (intro read_restart_of_block [where a = ?hdr and rest = "[]"])
       (auto simp: f wrapped_disp length_checkpoint_header wrapped_malloc er)
  have out: "read_restart_all even_rows zero_heap 0 0 2 0 (Some (?hdr @ bytes_of_doubles (data (tile 11))))
            = [Completed (tile 11, \<lparr>size_p = 2, rank = 0\<rparr>, 5),
               Completed (tile 11, \<lparr>size_p = 2, rank = 1\<rparr>, 5)]"
    by (simp add: read_restart_all_def numeral_2_eq_2 rd [unfolded numeral_2_eq_2] f)
  show ?thesis
    using ckpt out by (simp add: tile_def checkpoint_header_def)
qed

text \<open>
  Claim C4. The claim is that the byte ranges written by the ranks are pairwise disjoint
  and contiguous for every process count and tile size. On the grid above rank 0 and
  rank 1 write the same range: \<open>2^32\<close> bytes from byte 12.
\<close>

theorem write_ranges_collide_on_wrapped_offsets:
  "write_restart_range
     \<lparr>nx = 32766, ny = 16382, nx_full = 65532, ny_full = 16382, data = replicate 536870912 10\<rparr>
     \<lparr>size_p = 2, rank = 0\<rparr> = Some (12, 4294967296) \<and>
   write_restart_range
     \<lparr>nx = 32766, ny = 16382, nx_full = 65532, ny_full = 16382, data = replicate 536870912 11\<rparr>
     \<lparr>size_p = 2, rank = 1\<rparr> = Some (12, 4294967296)"
  by (simp add: write_restart_range_def wrapped_disp length_bytes_of_doubles)


section \<open>Small checkpoints\<close>

lemma small_fit: "offsets_fit 1 1 1" "offsets_fit 2 1 1" "offsets_fit 1 2 1"
  by (simp_all add: offsets_fit_def spec_offset_def spec_header_bytes_def spec_tile_bytes_def)

lemma small_cells: "tile_cells 1 1 = 9" "tile_cells 2 1 = 12"
  by (simp_all add: tile_cells_def)

section \<open>The checkpoint file is not truncated\<close>

text \<open>
  Claim C6, as amended. \<^verbatim>\<open>write_restart\<close> opens the checkpoint with
  \<^verbatim>\<open>MPI_MODE_CREATE | MPI_MODE_WRONLY\<close>: a missing file is created, an existing file is
  opened as it is. While the offsets fit, the file after the write of a uniform group
  begins with the 3-integer header, followed by the tile blocks in rank order; the bytes
  of the previous file beyond these \<open>12 + P T\<close> bytes stay in place.
\<close>

theorem write_restart_no_truncation:
  assumes "offsets_fit (length ts) n m" and "uniform_tiles ts n m" and "ts \<noteq> []"
  shows "write_restart_all ts iter fs
         = Some (checkpoint_header (ts ! 0) iter @ tiles_bytes ts @
                 drop (12 + length ts * (8 * tile_cells n m)) (existing fs))"
  using assms by (rule write_restart_all_layout)

theorem write_restart_no_truncation_witness:
  "offsets_fit (length [\<lparr>nx = 1, ny = 1, nx_full = 1, ny_full = 1, data = [1, 2, 3, 4, 5, 6, 7, 8, 9]\<rparr>]) 1 1 \<and>
   uniform_tiles [\<lparr>nx = 1, ny = 1, nx_full = 1, ny_full = 1, data = [1, 2, 3, 4, 5, 6, 7, 8, 9]\<rparr>] 1 1 \<and>
   [\<lparr>nx = 1, ny = 1, nx_full = 1, ny_full = 1, data = [1, 2, 3, 4, 5, 6, 7, 8, 9 :: double]\<rparr>] \<noteq> [] \<and>
   write_restart_all
     [\<lparr>nx = 1, ny = 1, nx_full = 1, ny_full = 1, data = [1, 2, 3, 4, 5, 6, 7, 8, 9]\<rparr>] 7
     (Some (replicate 100 255))
   = Some (checkpoint_header \<lparr>nx = 1, ny = 1, nx_full = 1, ny_full = 1, data = [1, 2, 3, 4, 5, 6, 7, 8, 9]\<rparr> 7 @
           tiles_bytes [\<lparr>nx = 1, ny = 1, nx_full = 1, ny_full = 1, data = [1, 2, 3, 4, 5, 6, 7, 8, 9]\<rparr>] @
           replicate 16 255)"
proof -
  let ?t = "\<lparr>nx = 1, ny = 1, nx_full = 1, ny_full = 1, data = [1, 2, 3, 4, 5, 6, 7, 8, 9 :: double]\<rparr>"
  have fit: "offsets_fit (length [?t]) 1 1"
    using small_fit(1) by simp
  have u: "uniform_tiles [?t] 1 1"
    by (simp add: uniform_tiles_def small_cells)
  have ne: "[?t] \<noteq> []"
    by simp
  from write_restart_no_truncation [OF fit u ne, of 7 "Some (replicate 100 255)"] fit u
  show ?thesis
    by (simp add: small_cells existing_def)
qed

text \<open>
  Claim C6, as stated, fails: the claim is that the file holds exactly the header and the
  tile blocks, with no bytes left over from a previous, larger file. One process writes a
  tile of 9 cells (84 bytes with the header) over a previous checkpoint of 100 bytes: the
  result is not the header followed by the tile block (it is 100 bytes long, see the
  instance above).
\<close>

theorem write_restart_keeps_old_tail:
  "write_restart_all
     [\<lparr>nx = 1, ny = 1, nx_full = 1, ny_full = 1, data = [1, 2, 3, 4, 5, 6, 7, 8, 9]\<rparr>] 7
     (Some (replicate 100 255))
   \<noteq> Some (checkpoint_header \<lparr>nx = 1, ny = 1, nx_full = 1, ny_full = 1, data = [1, 2, 3, 4, 5, 6, 7, 8, 9]\<rparr> 7 @
           tiles_bytes [\<lparr>nx = 1, ny = 1, nx_full = 1, ny_full = 1, data = [1, 2, 3, 4, 5, 6, 7, 8, 9]\<rparr>])"
proof -
  let ?t = "\<lparr>nx = 1, ny = 1, nx_full = 1, ny_full = 1, data = [1, 2, 3, 4, 5, 6, 7, 8, 9 :: double]\<rparr>"
  have fit: "offsets_fit (length [?t]) 1 1"
    using small_fit(1) by simp
  have u: "uniform_tiles [?t] 1 1"
    by (simp add: uniform_tiles_def small_cells)
  from write_restart_all_layout [OF fit u, of 7 "Some (replicate 100 255)"]
  show ?thesis
    by (simp add: small_cells existing_def)
qed

section \<open>Restart with another process count\<close>

text \<open>
  Claim C2, as amended. \<^verbatim>\<open>read_restart\<close> does not compare process counts and rejects
  nothing. For a checkpoint that starts with a header \<open>(rows, m, iter)\<close>, whatever process
  count wrote it, rank \<open>r\<close> of the restarting group completes: its tile has the
  dimensions of its own decomposition, and its cells are the bytes that the file holds
  from offset \<open>12 + r T\<close> on, \<open>T\<close> being the tile size of the restarting group (where the file
  ends early, the fresh buffer keeps its contents).
\<close>

theorem read_restart_reads_own_range:
  assumes fit: "offsets_fit (Suc r) n m" and env: "rank env = word_of_nat r"
    and lr: "local_rows env rows = n"
  shows "read_restart local_rows heap rows_old cols_old env iter_old
           (Some (bytes_of_int rows @ bytes_of_int m @ bytes_of_int iter @ body))
         = Completed
             (\<lparr>nx = n, ny = m, nx_full = rows, ny_full = m,
               data = doubles_of_bytes (tile_cells n m)
                        (take (8 * tile_cells n m) (drop (r * (8 * tile_cells n m)) body) @
                         drop (length (take (8 * tile_cells n m) (drop (r * (8 * tile_cells n m)) body)))
                           (bytes_of_doubles (malloc_2d heap (n + 2) (m + 2))))\<rparr>,
              env, iter)"
proof -
  let ?t0 = "\<lparr>nx = n, ny = m, nx_full = rows, ny_full = m, data = []\<rparr>"
  let ?hdr = "bytes_of_int rows @ bytes_of_int m @ bytes_of_int iter"
  have hdr: "checkpoint_header ?t0 iter = ?hdr"
    by (simp add: checkpoint_header_def)
  have r: "r < Suc r" by simp
  have d': "sint (read_restart_disp (word_of_nat r) n m) = int (12 + r * (8 * tile_cells n m))"
    using sint_disp [OF fit r] by (simp only: sint_read_restart_disp sint_write_restart_disp)
  have dn: "nat (sint (read_restart_disp (word_of_nat r) n m)) = 12 + r * (8 * tile_cells n m)"
    and dp: "\<not> sint (read_restart_disp (word_of_nat r) n m) < 0"
    by (simp_all only: d' nat_int)
  have cn: "nat (sint ((n + 2) * (m + 2))) = tile_cells n m"
    and cp: "\<not> sint ((n + 2) * (m + 2)) < 0"
    by (simp_all only: sint_size [OF fit] nat_int)
  have len: "length ?hdr = 12"
    by (simp add: length_bytes_of_int)
  have pr: "pread (?hdr @ body) (12 + r * (8 * tile_cells n m)) (8 * tile_cells n m)
        = take (8 * tile_cells n m) (drop (r * (8 * tile_cells n m)) body)"
    using len by (rule pread_after_prefix)
  have "MPI_File_read_at_all \<lparr>contents = ?hdr @ body, pointer = 12\<rparr>
          (read_restart_disp (word_of_nat r) n m) (malloc_2d heap (n + 2) (m + 2)) ((n + 2) * (m + 2))
        = doubles_of_bytes (tile_cells n m)
                        (take (8 * tile_cells n m) (drop (r * (8 * tile_cells n m)) body) @
                         drop (length (take (8 * tile_cells n m) (drop (r * (8 * tile_cells n m)) body)))
                           (bytes_of_doubles (malloc_2d heap (n + 2) (m + 2))))"
    unfolding MPI_File_read_at_all_def dn cn using dp cp
    by (simp only: if_False simp_thms mpi_file.simps pr Let_def length_malloc_2d_tile [OF fit])
  then show ?thesis
    using read_restart_unfold [of local_rows heap rows_old cols_old env iter_old ?t0 iter body] lr env
    by (simp add: hdr Let_def)
qed

theorem read_restart_reads_own_range_witness:
  "offsets_fit (Suc 0) 2 1 \<and> rank \<lparr>size_p = 1, rank = 0\<rparr> = word_of_nat 0 \<and>
   even_rows \<lparr>size_p = 1, rank = 0\<rparr> 2 = 2 \<and>
   read_restart even_rows zero_heap 0 0 \<lparr>size_p = 1, rank = 0\<rparr> 0
           (Some (bytes_of_int 2 @ bytes_of_int 1 @ bytes_of_int 7 @ replicate 200 1))
         = Completed
             (\<lparr>nx = 2, ny = 1, nx_full = 2, ny_full = 1,
               data = doubles_of_bytes (tile_cells 2 1)
                        (take (8 * tile_cells 2 1) (drop (0 * (8 * tile_cells 2 1)) (replicate 200 1)) @
                         drop (length (take (8 * tile_cells 2 1) (drop (0 * (8 * tile_cells 2 1)) (replicate 200 1))))
                           (bytes_of_doubles (malloc_2d zero_heap (2 + 2) (1 + 2))))\<rparr>,
              \<lparr>size_p = 1, rank = 0\<rparr>, 7)"
proof -
  have fit: "offsets_fit (Suc 0) 2 1"
    using small_fit(3) by simp
  have env: "rank \<lparr>size_p = 1, rank = 0\<rparr> = word_of_nat 0"
    by simp
  have lr: "even_rows \<lparr>size_p = 1, rank = 0\<rparr> 2 = 2"
    by (simp add: even_rows_def)
  from read_restart_reads_own_range [where local_rows = even_rows and heap = zero_heap
      and rows_old = 0 and cols_old = 0 and iter_old = 0 and iter = 7 and body = "replicate 200 1",
      OF fit env lr] fit env lr
  show ?thesis
    by simp
qed

text \<open>
  Claim C2, as stated, fails: the claim is that a restart with a process count other than
  the writer's is rejected. Two processes write tiles of \<open>3 \<times> 3\<close> cells; one process
  restarts with a tile of \<open>4 \<times> 3\<close> cells. The restart completes, and the tile consists of
  the 9 cells of the first block and the first 3 cells of the second block.
\<close>

theorem mismatched_restart_completes:
  "read_restart_all even_rows zero_heap 0 0 1 0
     (write_restart_all
        [\<lparr>nx = 1, ny = 1, nx_full = 2, ny_full = 1, data = [1, 2, 3, 4, 5, 6, 7, 8, 9]\<rparr>,
         \<lparr>nx = 1, ny = 1, nx_full = 2, ny_full = 1, data = [11, 12, 13, 14, 15, 16, 17, 18, 19]\<rparr>]
        7 None)
   = [Completed (\<lparr>nx = 2, ny = 1, nx_full = 2, ny_full = 1,
                   data = [1, 2, 3, 4, 5, 6, 7, 8, 9, 11, 12, 13]\<rparr>,
                 \<lparr>size_p = 1, rank = 0\<rparr>, 7)]"
proof -
  let ?t0 = "\<lparr>nx = 1, ny = 1, nx_full = 2, ny_full = 1, data = [1, 2, 3, 4, 5, 6, 7, 8, 9 :: double]\<rparr>"
  let ?t1 = "\<lparr>nx = 1, ny = 1, nx_full = 2, ny_full = 1, data = [11, 12, 13, 14, 15, 16, 17, 18, 19 :: double]\<rparr>"
  let ?xs = "[1, 2, 3, 4, 5, 6, 7, 8, 9, 11, 12, 13 :: double]"
  have fit: "offsets_fit (length [?t0, ?t1]) 1 1"
    using small_fit(2) by (simp add: numeral_2_eq_2)
  have u: "uniform_tiles [?t0, ?t1] 1 1"
    by (simp add: uniform_tiles_def small_cells)
  have w: "write_restart_all [?t0, ?t1] 7 None
             = Some (checkpoint_header ?t0 7 @ tiles_bytes [?t0, ?t1])"
    using write_restart_all_layout [OF fit u, of 7 None] by (simp add: existing_def)
  have F: "checkpoint_header ?t0 7 @ tiles_bytes [?t0, ?t1]
             = checkpoint_header ?t0 7 @ bytes_of_doubles ?xs @ bytes_of_doubles [14, 15, 16, 17, 18, 19]"
    by (simp add: tiles_bytes_def bytes_of_doubles_Cons bytes_of_doubles_Nil)
  have "read_restart even_rows zero_heap 0 0 \<lparr>size_p = 1, rank = 0\<rparr> 0
          (Some (checkpoint_header ?t0 7 @ tiles_bytes [?t0, ?t1]))
        = Completed (\<lparr>nx = 2, ny = 1, nx_full = nx_full ?t0, ny_full = 1, data = ?xs\<rparr>,
            \<lparr>size_p = 1, rank = 0\<rparr>, 7)"
    by (rule read_restart_of_block [where a = "checkpoint_header ?t0 7", OF _ _ _ _ _ F])
       (simp_all add: read_restart_disp_closed length_checkpoint_header malloc_2d_def even_rows_def)
  then show ?thesis
    by (simp add: read_restart_all_def w)
qed


section \<open>Facts about blocks of cells\<close>

lemma memcpy_Suc:
  "memcpy dst doff src soff (Suc n) = (memcpy dst doff src soff n)[doff + n := src ! (soff + n)]"
  by (simp add: memcpy_def)

lemma length_memcpy: "length (memcpy dst doff src soff n) = length dst"
  by (induction n) (simp_all add: memcpy_Suc, simp add: memcpy_def)

lemma nth_memcpy:
  "doff + n \<le> length dst \<Longrightarrow> p < length dst \<Longrightarrow>
   memcpy dst doff src soff n ! p =
     (if doff \<le> p \<and> p < doff + n then src ! (soff + (p - doff)) else dst ! p)"
proof (induction n)
  case 0
  then show ?case by (auto simp: memcpy_def)
next
  case (Suc n)
  then have IH: "memcpy dst doff src soff n ! p =
     (if doff \<le> p \<and> p < doff + n then src ! (soff + (p - doff)) else dst ! p)"
    by simp
  from Suc.prems have len: "doff + n < length (memcpy dst doff src soff n)"
    by (simp add: length_memcpy)
  show ?case
  proof (cases "p = doff + n")
    case True
    then show ?thesis
      using len by (simp add: memcpy_Suc)
  next
    case False
    then show ?thesis
      using len IH by (auto simp: memcpy_Suc nth_list_update)
  qed
qed

lemma idx_less: "i < R \<Longrightarrow> j < W \<Longrightarrow> idx W i j < R * W"
proof -
  assume i: "i < R" and j: "j < W"
  then have "i * W + j < i * W + W"
    by simp
  also have "\<dots> = Suc i * W"
    by simp
  also have "\<dots> \<le> R * W"
    using i by (intro mult_le_mono1) simp
  finally show ?thesis
    by (simp add: idx_def)
qed

lemma in_row_segment:
  assumes j: "j < W" and ac: "a + c \<le> W"
  shows "(idx W r a \<le> idx W i j \<and> idx W i j < idx W r a + c) \<longleftrightarrow> (i = r \<and> a \<le> j \<and> j < a + c)"
proof (cases "i = r")
  case True
  then show ?thesis by (auto simp: idx_def)
next
  case False
  then consider "i < r" | "r < i" by linarith
  then show ?thesis
  proof cases
    case 1
    then have "Suc i * W \<le> r * W"
      by (intro mult_le_mono1) simp
    then have "idx W i j < idx W r a"
      using j by (simp add: idx_def)
    then show ?thesis using False by simp
  next
    case 2
    then have "Suc r * W \<le> i * W"
      by (intro mult_le_mono1) simp
    then have "idx W r a + c \<le> idx W i j"
      using ac by (simp add: idx_def)
    then show ?thesis using False by simp
  qed
qed

lemma idx_inj:
  assumes "j < W" and "j' < W"
  shows "idx W i j = idx W i' j' \<longleftrightarrow> i = i' \<and> j = j'"
proof -
  have "(idx W i' j' \<le> idx W i j \<and> idx W i j < idx W i' j' + 1) \<longleftrightarrow> (i = i' \<and> j' \<le> j \<and> j < j' + 1)"
    using assms by (intro in_row_segment) simp_all
  then show ?thesis by auto
qed

section \<open>The loops of \<^verbatim>\<open>read_field\<close>\<close>

lemma copy_to_interior_Suc:
  "copy_to_interior d inner (Suc k) ml mi =
     memcpy (copy_to_interior d inner k ml mi) (idx (ml + 2) (k + 1) 1) inner (idx ml k 0) mi"
  by (simp add: copy_to_interior_def)

lemma length_copy_to_interior: "length (copy_to_interior d inner k ml mi) = length d"
  by (induction k) (simp_all add: copy_to_interior_Suc length_memcpy, simp add: copy_to_interior_def)

lemma nth_copy_to_interior:
  assumes len: "length d = (n + 2) * (m + 2)" and i: "i < n + 2" and j: "j < m + 2"
  shows "k \<le> n \<Longrightarrow>
         copy_to_interior d inner k m m ! idx (m + 2) i j =
           (if 1 \<le> i \<and> i \<le> k \<and> 1 \<le> j \<and> j \<le> m then inner ! idx m (i - 1) (j - 1)
            else d ! idx (m + 2) i j)"
proof (induction k)
  case 0
  then show ?case by (auto simp: copy_to_interior_def)
next
  case (Suc k)
  let ?D = "copy_to_interior d inner k m m"
  from Suc have IH: "?D ! idx (m + 2) i j =
           (if 1 \<le> i \<and> i \<le> k \<and> 1 \<le> j \<and> j \<le> m then inner ! idx m (i - 1) (j - 1)
            else d ! idx (m + 2) i j)"
    by simp
  have p: "idx (m + 2) i j < length ?D"
    using idx_less [OF i j] by (simp add: length_copy_to_interior len)
  have "idx (m + 2) (k + 1) (m + 1) < (n + 2) * (m + 2)"
    using Suc.prems by (intro idx_less) simp_all
  then have fits: "idx (m + 2) (k + 1) 1 + m \<le> length ?D"
    by (simp add: length_copy_to_interior len idx_def)
  have seg: "(idx (m + 2) (k + 1) 1 \<le> idx (m + 2) i j \<and> idx (m + 2) i j < idx (m + 2) (k + 1) 1 + m)
               \<longleftrightarrow> (i = k + 1 \<and> 1 \<le> j \<and> j < 1 + m)"
    using j by (intro in_row_segment) simp_all
  have src: "idx m k 0 + (idx (m + 2) i j - idx (m + 2) (k + 1) 1) = idx m (i - 1) (j - 1)"
    if "i = k + 1" "1 \<le> j"
    using that by (simp add: idx_def)
  show ?case
    unfolding copy_to_interior_Suc nth_memcpy [OF fits p] seg
    using IH src by auto
qed

text \<open>Two assignments in a row, the second reading the block after the first.\<close>

lemma nth_two_updates:
  assumes "a < length D" and "b < length D" and "p < length D" and "a \<noteq> b'"
  shows "(let D1 = D[a := D ! a'] in D1[b := D1 ! b']) ! p =
           (if p = b then D ! b' else if p = a then D ! a' else D ! p)"
  using assms by (simp add: Let_def nth_list_update)

lemma length_two_updates:
  "length (let D1 = D[a := x] in D1[b := f D1]) = length D"
  by (simp add: Let_def)

lemma length_boundary_columns_step: "length (boundary_columns_step ml mi r D) = length D"
  by (simp add: boundary_columns_step_def Let_def)

lemma nth_boundary_columns_step:
  assumes len: "length D = (n + 2) * (m + 2)" and m: "1 \<le> m"
    and r: "r < n + 2" and i: "i < n + 2" and j: "j < m + 2"
  shows "boundary_columns_step m m r D ! idx (m + 2) i j =
           (if i = r \<and> j = 0 then D ! idx (m + 2) r 1
            else if i = r \<and> j = m + 1 then D ! idx (m + 2) r m
            else D ! idx (m + 2) i j)"
proof -
  let ?W = "m + 2"
  have a: "idx ?W r 0 < length D" and b: "idx ?W r (m + 1) < length D"
    unfolding len using r by (intro idx_less; simp)+
  have p: "idx ?W i j < length D"
    unfolding len using i j by (rule idx_less)
  have ne: "idx ?W r 0 \<noteq> idx ?W r m"
    using idx_inj [of 0 ?W m r r] m by simp
  have e0: "idx ?W i j = idx ?W r 0 \<longleftrightarrow> i = r \<and> j = 0"
    using idx_inj [of j ?W 0 i r] j by simp
  have em: "idx ?W i j = idx ?W r (m + 1) \<longleftrightarrow> i = r \<and> j = m + 1"
    using idx_inj [of j ?W "m + 1" i r] j by simp
  show ?thesis
    unfolding boundary_columns_step_def nth_two_updates [OF a b p ne] e0 em
    by auto
qed

lemma set_boundary_columns_Suc:
  "set_boundary_columns d (Suc k) ml mi =
     boundary_columns_step ml mi (k + 1) (set_boundary_columns d k ml mi)"
proof -
  have "[1..<Suc k + 1] = [1..<k + 1] @ [k + 1]"
    by simp
  then show ?thesis
    unfolding set_boundary_columns_def
    by (simp only: fold_append fold.simps o_apply id_apply)
qed

lemma length_set_boundary_columns: "length (set_boundary_columns d k ml mi) = length d"
  by (induction k)
     (simp add: set_boundary_columns_def, simp add: set_boundary_columns_Suc length_boundary_columns_step)

lemma nth_set_boundary_columns:
  assumes len: "length d = (n + 2) * (m + 2)" and m: "1 \<le> m"
  shows "k \<le> n \<Longrightarrow> i < n + 2 \<Longrightarrow> j < m + 2 \<Longrightarrow>
         set_boundary_columns d k m m ! idx (m + 2) i j =
           (if 1 \<le> i \<and> i \<le> k \<and> j = 0 then d ! idx (m + 2) i 1
            else if 1 \<le> i \<and> i \<le> k \<and> j = m + 1 then d ! idx (m + 2) i m
            else d ! idx (m + 2) i j)"
proof (induction k arbitrary: i j)
  case 0
  then show ?case by (auto simp: set_boundary_columns_def)
next
  case (Suc k)
  let ?W = "m + 2"
  define D where "D = set_boundary_columns d k m m"
  have IH: "D ! idx ?W i' j' =
           (if 1 \<le> i' \<and> i' \<le> k \<and> j' = 0 then d ! idx ?W i' 1
            else if 1 \<le> i' \<and> i' \<le> k \<and> j' = m + 1 then d ! idx ?W i' m
            else d ! idx ?W i' j')" if "i' < n + 2" "j' < m + 2" for i' j'
    unfolding D_def using Suc.IH [OF _ that] Suc.prems by simp
  have lenD: "length D = (n + 2) * ?W"
    unfolding D_def by (simp only: length_set_boundary_columns len)
  have row: "k + 1 < n + 2"
    using Suc.prems by simp
  have r1: "D ! idx ?W (k + 1) 1 = d ! idx ?W (k + 1) 1"
    using IH [of "k + 1" 1] row m by simp
  have rm: "D ! idx ?W (k + 1) m = d ! idx ?W (k + 1) m"
    using IH [of "k + 1" m] row m by simp
  have "set_boundary_columns d (Suc k) m m ! idx ?W i j =
          (if i = k + 1 \<and> j = 0 then D ! idx ?W (k + 1) 1
            else if i = k + 1 \<and> j = m + 1 then D ! idx ?W (k + 1) m
            else D ! idx ?W i j)"
    unfolding set_boundary_columns_Suc D_def [symmetric]
    using lenD m row Suc.prems(2,3) by (rule nth_boundary_columns_step)
  then show ?case
    using IH [OF Suc.prems(2,3)] r1 rm by (auto simp: le_Suc_eq)
qed

lemma length_boundary_rows_step: "length (boundary_rows_step nl ml c D) = length D"
  by (simp add: boundary_rows_step_def Let_def)

lemma nth_boundary_rows_step:
  assumes len: "length D = (n + 2) * (m + 2)" and n: "1 \<le> n"
    and c: "c < m + 2" and i: "i < n + 2" and j: "j < m + 2"
  shows "boundary_rows_step n m c D ! idx (m + 2) i j =
           (if j = c \<and> i = 0 then D ! idx (m + 2) 1 c
            else if j = c \<and> i = n + 1 then D ! idx (m + 2) n c
            else D ! idx (m + 2) i j)"
proof -
  let ?W = "m + 2"
  have a: "idx ?W 0 c < length D" and b: "idx ?W (n + 1) c < length D"
    unfolding len using c by (intro idx_less; simp)+
  have p: "idx ?W i j < length D"
    unfolding len using i j by (rule idx_less)
  have ne: "idx ?W 0 c \<noteq> idx ?W n c"
    using idx_inj [of c ?W c 0 n] c n by simp
  have e0: "idx ?W i j = idx ?W 0 c \<longleftrightarrow> i = 0 \<and> j = c"
    using idx_inj [of j ?W c i 0] j c by simp
  have en: "idx ?W i j = idx ?W (n + 1) c \<longleftrightarrow> i = n + 1 \<and> j = c"
    using idx_inj [of j ?W c i "n + 1"] j c by simp
  show ?thesis
    unfolding boundary_rows_step_def nth_two_updates [OF a b p ne] e0 en
    by auto
qed

lemma length_fold_boundary_rows:
  "length (fold (boundary_rows_step nl ml) [0..<k] d) = length d"
  by (induction k) (simp_all add: length_boundary_rows_step)

lemma nth_fold_boundary_rows:
  assumes len: "length d = (n + 2) * (m + 2)" and n: "1 \<le> n"
  shows "k \<le> m + 2 \<Longrightarrow> i < n + 2 \<Longrightarrow> j < m + 2 \<Longrightarrow>
         fold (boundary_rows_step n m) [0..<k] d ! idx (m + 2) i j =
           (if j < k \<and> i = 0 then d ! idx (m + 2) 1 j
            else if j < k \<and> i = n + 1 then d ! idx (m + 2) n j
            else d ! idx (m + 2) i j)"
proof (induction k arbitrary: i j)
  case 0
  then show ?case by simp
next
  case (Suc k)
  let ?W = "m + 2"
  define D where "D = fold (boundary_rows_step n m) [0..<k] d"
  have IH: "D ! idx ?W i' j' =
           (if j' < k \<and> i' = 0 then d ! idx ?W 1 j'
            else if j' < k \<and> i' = n + 1 then d ! idx ?W n j'
            else d ! idx ?W i' j')" if "i' < n + 2" "j' < m + 2" for i' j'
    unfolding D_def using Suc.IH [OF _ that] Suc.prems by simp
  have lenD: "length D = (n + 2) * ?W"
    unfolding D_def by (simp only: length_fold_boundary_rows len)
  have col: "k < ?W"
    using Suc.prems by simp
  have r1: "D ! idx ?W 1 k = d ! idx ?W 1 k"
    using IH [of 1 k] col n by simp
  have rn: "D ! idx ?W n k = d ! idx ?W n k"
    using IH [of n k] col n by simp
  have step: "fold (boundary_rows_step n m) [0..<Suc k] d = boundary_rows_step n m k D"
    by (simp add: D_def)
  have "fold (boundary_rows_step n m) [0..<Suc k] d ! idx ?W i j =
          (if j = k \<and> i = 0 then D ! idx ?W 1 k
            else if j = k \<and> i = n + 1 then D ! idx ?W n k
            else D ! idx ?W i j)"
    unfolding step using lenD n col Suc.prems(2,3) by (rule nth_boundary_rows_step)
  then show ?case
    using IH [OF Suc.prems(2,3)] r1 rn by (auto simp: less_Suc_eq)
qed

section \<open>The tiles after the initial load\<close>

lemma tile_fits_offsets_fit: "tile_fits n m \<Longrightarrow> offsets_fit 0 n m"
  by (simp add: tile_fits_def offsets_fit_def)

lemma tile_cells_nat:
  "0 \<le> sint n \<Longrightarrow> 0 \<le> sint m \<Longrightarrow> tile_cells n m = (nat (sint n) + 2) * (nat (sint m) + 2)"
  by (simp add: tile_cells_def nat_mult_distrib nat_add_distrib)

lemma nth_set_boundary_rows:
  assumes len: "length d = (n + 2) * (m + 2)" and n: "1 \<le> n" and i: "i < n + 2" and j: "j < m + 2"
  shows "set_boundary_rows d n m m ! idx (m + 2) i j =
           (if i = 0 then d ! idx (m + 2) 1 j
            else if i = n + 1 then d ! idx (m + 2) n j
            else d ! idx (m + 2) i j)"
  unfolding set_boundary_rows_def
  using nth_fold_boundary_rows [OF len n order_refl i j] j by simp

text \<open>The block after the three loops of lines 117--130.\<close>

lemma filled_tile:
  fixes inner :: "double list"
  assumes len: "length d0 = (n + 2) * (m + 2)" and n: "1 \<le> n" and m: "1 \<le> m"
  defines "d \<equiv> set_boundary_rows (set_boundary_columns (copy_to_interior d0 inner n m m) n m m) n m m"
  shows "length d = (n + 2) * (m + 2)"
    and "ghost_mirrored d n m"
    and "\<forall>i < n. \<forall>j < m. d ! idx (m + 2) (i + 1) (j + 1) = inner ! idx m i j"
    and "d ! idx (m + 2) 0 0 = d ! idx (m + 2) 1 1 \<and>
         d ! idx (m + 2) 0 (m + 1) = d ! idx (m + 2) 1 m \<and>
         d ! idx (m + 2) (n + 1) 0 = d ! idx (m + 2) n 1 \<and>
         d ! idx (m + 2) (n + 1) (m + 1) = d ! idx (m + 2) n m"
proof -
  let ?W = "m + 2"
  define A where "A = copy_to_interior d0 inner n m m"
  define B where "B = set_boundary_columns A n m m"
  have lenA: "length A = (n + 2) * ?W"
    unfolding A_def by (simp only: length_copy_to_interior len)
  have lenB: "length B = (n + 2) * ?W"
    unfolding B_def by (simp only: length_set_boundary_columns lenA)
  have d: "d = set_boundary_rows B n m m"
    by (simp add: d_def B_def A_def)
  have A: "A ! idx ?W i j =
           (if 1 \<le> i \<and> i \<le> n \<and> 1 \<le> j \<and> j \<le> m then inner ! idx m (i - 1) (j - 1)
            else d0 ! idx ?W i j)" if "i < n + 2" "j < m + 2" for i j
    unfolding A_def using len that order_refl by (rule nth_copy_to_interior)
  have B: "B ! idx ?W i j =
           (if 1 \<le> i \<and> i \<le> n \<and> j = 0 then A ! idx ?W i 1
            else if 1 \<le> i \<and> i \<le> n \<and> j = m + 1 then A ! idx ?W i m
            else A ! idx ?W i j)" if "i < n + 2" "j < m + 2" for i j
    unfolding B_def using lenA m order_refl that by (rule nth_set_boundary_columns)
  have D: "d ! idx ?W i j =
           (if i = 0 then B ! idx ?W 1 j
            else if i = n + 1 then B ! idx ?W n j
            else B ! idx ?W i j)" if "i < n + 2" "j < m + 2" for i j
    unfolding d using lenB n that by (rule nth_set_boundary_rows)
  show "length d = (n + 2) * ?W"
    unfolding d set_boundary_rows_def by (simp only: length_fold_boundary_rows lenB)
  show "ghost_mirrored d n m"
    unfolding ghost_mirrored_def
  proof (intro conjI ballI allI impI)
    fix i assume "i \<in> {1..n}"
    then have i: "1 \<le> i" "i \<le> n" "i < n + 2" "i \<noteq> 0" "i \<noteq> n + 1"
      by simp_all
    show "d ! idx ?W i 0 = d ! idx ?W i 1"
      using D [of i 0] D [of i 1] B [of i 0] B [of i 1] i m by simp
    show "d ! idx ?W i (m + 1) = d ! idx ?W i m"
      using D [of i "m + 1"] D [of i m] B [of i "m + 1"] B [of i m] i m by simp
  next
    fix j assume j: "j < m + 2"
    show "d ! idx ?W 0 j = d ! idx ?W 1 j"
      using D [of 0 j] D [of 1 j] j n by simp
    show "d ! idx ?W (n + 1) j = d ! idx ?W n j"
      using D [of "n + 1" j] D [of n j] j n by simp
  qed
  show "\<forall>i < n. \<forall>j < m. d ! idx ?W (i + 1) (j + 1) = inner ! idx m i j"
  proof (intro allI impI)
    fix i j assume "i < n" "j < m"
    then show "d ! idx ?W (i + 1) (j + 1) = inner ! idx m i j"
      using D [of "i + 1" "j + 1"] B [of "i + 1" "j + 1"] A [of "i + 1" "j + 1"] by simp
  qed
  show "d ! idx ?W 0 0 = d ! idx ?W 1 1 \<and>
         d ! idx ?W 0 (m + 1) = d ! idx ?W 1 m \<and>
         d ! idx ?W (n + 1) 0 = d ! idx ?W n 1 \<and>
         d ! idx ?W (n + 1) (m + 1) = d ! idx ?W n m"
    using D [of 0 0] D [of 0 "m + 1"] D [of "n + 1" 0] D [of "n + 1" "m + 1"]
      B [of 1 0] B [of 1 "m + 1"] B [of n 0] B [of n "m + 1"]
      D [of 1 1] D [of 1 m] D [of n 1] D [of n m]
      B [of 1 1] B [of 1 m] B [of n 1] B [of n m] n m
    by simp
qed

lemma read_field_completed:
  assumes hdr: "fscanf_header text = (2, [rows, cols], rest)"
  shows "read_field local_rows scan_lf heap_a heap_b heap_c env (Some text) =
     (let nl = local_rows env rows;
          inner = MPI_Scatter (map (scan_lf rest) [0..<nat (sint rows) * nat (sint cols)])
                    (nat (sint (nl * cols))) (malloc_2d heap_c nl cols) (nat (sint (rank env)));
          d = set_boundary_rows
                (set_boundary_columns
                   (copy_to_interior (malloc_2d heap_a (nl + 2) (cols + 2)) inner
                      (nat (sint nl)) (nat (sint cols)) (nat (sint cols)))
                   (nat (sint nl)) (nat (sint cols)) (nat (sint cols)))
                (nat (sint nl)) (nat (sint cols)) (nat (sint cols));
          t = \<lparr>nx = nl, ny = cols, nx_full = rows, ny_full = cols, data = d\<rparr>
      in ([Call_MPI_Scatter (nl * cols)], Completed (t, t, env)))"
  by (simp add: read_field_def hdr Let_def set_field_dimensions_def parallel_setup_def copy_field_def)

text \<open>
  Claim C7. After \<^verbatim>\<open>read_field\<close> completes on a well-formed input (a header with two
  integers, a tile with at least one interior row and column), the two tiles are
  identical, and every ghost cell equals its nearest interior neighbour: the left and
  right ghost cells of the interior rows mirror the adjacent interior column, the top and
  bottom ghost rows mirror the adjacent interior rows over the full padded width, and each
  corner equals the interior cell next to it, since the rows are mirrored after the
  columns. The interior holds the block that the scatter delivered.
\<close>

theorem read_field_ghost_invariant:
  assumes hdr: "fscanf_header text = (2, [rows, cols], rest)"
    and lr: "local_rows env rows = nl"
    and fits: "tile_fits nl cols"
  shows "\<exists>t1 t2. read_field local_rows scan_lf heap_a heap_b heap_c env (Some text)
                   = ([Call_MPI_Scatter (nl * cols)], Completed (t1, t2, env)) \<and>
           t2 = t1 \<and> nx t1 = nl \<and> ny t1 = cols \<and>
           length (data t1) = (nat (sint nl) + 2) * (nat (sint cols) + 2) \<and>
           ghost_mirrored (data t1) (nat (sint nl)) (nat (sint cols)) \<and>
           (data t1 ! idx (nat (sint cols) + 2) 0 0 = data t1 ! idx (nat (sint cols) + 2) 1 1 \<and>
            data t1 ! idx (nat (sint cols) + 2) 0 (nat (sint cols) + 1)
              = data t1 ! idx (nat (sint cols) + 2) 1 (nat (sint cols)) \<and>
            data t1 ! idx (nat (sint cols) + 2) (nat (sint nl) + 1) 0
              = data t1 ! idx (nat (sint cols) + 2) (nat (sint nl)) 1 \<and>
            data t1 ! idx (nat (sint cols) + 2) (nat (sint nl) + 1) (nat (sint cols) + 1)
              = data t1 ! idx (nat (sint cols) + 2) (nat (sint nl)) (nat (sint cols))) \<and>
           (\<forall>i < nat (sint nl). \<forall>j < nat (sint cols).
              data t1 ! idx (nat (sint cols) + 2) (i + 1) (j + 1)
                = MPI_Scatter (map (scan_lf rest) [0..<nat (sint rows) * nat (sint cols)])
                    (nat (sint (nl * cols))) (malloc_2d heap_c nl cols) (nat (sint (rank env)))
                  ! idx (nat (sint cols)) i j)"
proof -
  let ?n = "nat (sint nl)" and ?m = "nat (sint cols)"
  let ?inner = "MPI_Scatter (map (scan_lf rest) [0..<nat (sint rows) * nat (sint cols)])
                    (nat (sint (nl * cols))) (malloc_2d heap_c nl cols) (nat (sint (rank env)))"
  let ?fresh = "malloc_2d heap_a (nl + 2) (cols + 2)"
  let ?d = "set_boundary_rows (set_boundary_columns (copy_to_interior ?fresh ?inner ?n ?m ?m) ?n ?m ?m) ?n ?m ?m"
  let ?t = "\<lparr>nx = nl, ny = cols, nx_full = rows, ny_full = cols, data = ?d\<rparr>"
  from fits have n: "1 \<le> ?n" and m: "1 \<le> ?m" and n0: "0 \<le> sint nl" and m0: "0 \<le> sint cols"
    unfolding tile_fits_def by linarith+
  have len: "length ?fresh = (?n + 2) * (?m + 2)"
    using length_malloc_2d_tile [OF tile_fits_offsets_fit [OF fits], of heap_a]
    by (simp only: tile_cells_nat [OF n0 m0])
  note F = filled_tile [OF len n m, of ?inner]
  have rf: "read_field local_rows scan_lf heap_a heap_b heap_c env (Some text)
          = ([Call_MPI_Scatter (nl * cols)], Completed (?t, ?t, env))"
    using read_field_completed [OF hdr, of local_rows scan_lf heap_a heap_b heap_c env]
    by (simp only: Let_def lr)
  have sel: "nx ?t = nl" "ny ?t = cols" "data ?t = ?d"
    by simp_all
  show ?thesis
  proof (intro exI [of _ ?t] conjI)
    show "read_field local_rows scan_lf heap_a heap_b heap_c env (Some text)
          = ([Call_MPI_Scatter (nl * cols)], Completed (?t, ?t, env))"
      by (rule rf)
    show "?t = ?t" ..
    show "nx ?t = nl" "ny ?t = cols"
      by (rule sel)+
    show "length (data ?t) = (?n + 2) * (?m + 2)"
      unfolding sel by (rule F(1))
    show "ghost_mirrored (data ?t) ?n ?m"
      unfolding sel by (rule F(2))
    show "data ?t ! idx (?m + 2) 0 0 = data ?t ! idx (?m + 2) 1 1"
      unfolding sel using F(4) by (rule conjunct1)
    show "data ?t ! idx (?m + 2) 0 (?m + 1) = data ?t ! idx (?m + 2) 1 ?m"
      unfolding sel using F(4) by blast
    show "data ?t ! idx (?m + 2) (?n + 1) 0 = data ?t ! idx (?m + 2) ?n 1"
      unfolding sel using F(4) by blast
    show "data ?t ! idx (?m + 2) (?n + 1) (?m + 1) = data ?t ! idx (?m + 2) ?n ?m"
      unfolding sel using F(4) by blast
    show "\<forall>i < ?n. \<forall>j < ?m. data ?t ! idx (?m + 2) (i + 1) (j + 1) = ?inner ! idx ?m i j"
      unfolding sel by (rule F(3))
  qed
qed

section \<open>Header validation\<close>

text \<open>
  Claim C5, as amended. If the \<^verbatim>\<open>fscanf\<close> of the header converts fewer than two integers (as
  for a file that consists of \<^verbatim>\<open># 3\<close> alone), \<^verbatim>\<open>read_field\<close> prints the error message and
  aborts the process group; it has issued no collective call: there is no scatter, and no
  tile is returned.
\<close>

theorem read_field_aborts_on_short_header:
  assumes "sint (fst (fscanf_header text)) < 2"
  shows "read_field local_rows scan_lf heap_a heap_b heap_c env (Some text)
           = ([Stderr (''Error while reading the input file!'' @ [CHR 0x0A]), Call_MPI_Abort (- 1)],
              Aborted) \<and>
         (\<forall>c. Call_MPI_Scatter c \<notin> set (fst (read_field local_rows scan_lf heap_a heap_b heap_c env (Some text))))"
  using assms by (simp add: read_field_def split_def)

lemma header_hash_3: "fscanf_header ''# 3'' = (1, [3], [])"
  by (simp add: fscanf_header_def scan_d_def isspace_def isdigit_def)

theorem read_field_aborts_on_short_header_witness:
  "sint (fst (fscanf_header ''# 3'')) < 2 \<and>
   read_field even_rows zero_scan zero_heap zero_heap zero_heap \<lparr>size_p = 2, rank = 0\<rparr> (Some ''# 3'')
     = ([Stderr (''Error while reading the input file!'' @ [CHR 0x0A]), Call_MPI_Abort (- 1)], Aborted) \<and>
   (\<forall>c. Call_MPI_Scatter c \<notin> set (fst (read_field even_rows zero_scan zero_heap zero_heap zero_heap
           \<lparr>size_p = 2, rank = 0\<rparr> (Some ''# 3''))))"
proof -
  have h: "sint (fst (fscanf_header ''# 3'')) < 2"
    by (simp add: header_hash_3)
  from read_field_aborts_on_short_header [OF h, of even_rows zero_scan zero_heap zero_heap zero_heap
      "\<lparr>size_p = 2, rank = 0\<rparr>"] h
  show ?thesis
    by (intro conjI) simp_all
qed

text \<open>The second integer may come from the next line.\<close>

lemma header_crosses_lines:
  "fscanf_header (''# 3'' @ [CHR 0x0A] @ ''7 8 9'') = (2, [3, 7], ''8 9'')"
  by (simp add: fscanf_header_def scan_d_def isspace_def isdigit_def)

text \<open>
  Claim C5, as stated, fails: the claim is that a first line \<^verbatim>\<open># 3\<close> makes \<^verbatim>\<open>read_field\<close> abort
  before any collective call. For the file with the lines \<^verbatim>\<open># 3\<close> and \<^verbatim>\<open>7 8 9\<close> the scan
  takes 3 and 7 as the dimensions; the process does not abort and calls the scatter with
  \<open>3 \<times> 7 = 21\<close> cells.
\<close>

theorem read_field_accepts_header_across_lines:
  "fst (read_field even_rows zero_scan zero_heap zero_heap zero_heap \<lparr>size_p = 1, rank = 0\<rparr>
          (Some (''# 3'' @ [CHR 0x0A] @ ''7 8 9''))) = [Call_MPI_Scatter 21] \<and>
   snd (read_field even_rows zero_scan zero_heap zero_heap zero_heap \<lparr>size_p = 1, rank = 0\<rparr>
          (Some (''# 3'' @ [CHR 0x0A] @ ''7 8 9''))) \<noteq> Aborted"
  by (simp only: read_field_completed [OF header_crosses_lines] Let_def fst_conv snd_conv)
     (simp add: even_rows_def)

section \<open>A file that cannot be opened\<close>

text \<open>
  Claim C9. The claim is that a failed \<^verbatim>\<open>fopen\<close> ends the run through the group abort of
  the malformed-header path instead of reading from the invalid handle. \<^verbatim>\<open>read_field\<close> does
  not test the result of \<^verbatim>\<open>fopen\<close>: the null pointer goes to \<^verbatim>\<open>fscanf\<close>, which is undefined
  behaviour; \<^verbatim>\<open>MPI_Abort\<close> is not called.
\<close>

theorem read_field_null_handle:
  "read_field local_rows scan_lf heap_a heap_b heap_c env None = ([], Undefined_behaviour) \<and>
   snd (read_field local_rows scan_lf heap_a heap_b heap_c env None) \<noteq> Aborted \<and>
   (\<forall>c. Call_MPI_Abort c \<notin> set (fst (read_field local_rows scan_lf heap_a heap_b heap_c env None)))"
  by (simp add: read_field_def)

section \<open>The gather of \<^verbatim>\<open>write_field\<close>\<close>

lemma sint_of_int_fits:
  assumes "0 \<le> k" and "k < 2 ^ 31"
  shows "sint (word_of_int k :: int32) = k"
proof -
  have "signed_take_bit 31 k = k"
    using assms by (intro signed_take_bit_int_eq_self) simp_all
  then show ?thesis
    by (simp only: sint_sbintrunc') simp
qed

lemma gather_counts:
  assumes "gather_fits P n m"
  shows "nat (sint (n * m)) = nat (sint n) * nat (sint m)"
    and "nat (sint (word_of_nat P :: int32)) = P"
    and "nat (sint (n * word_of_nat P)) = nat (sint n) * P"
proof -
  from assms have n: "0 \<le> sint n" and m: "0 \<le> sint m" and nm: "sint n * sint m < 2 ^ 31"
    and nP: "sint n * int P < 2 ^ 31" and P: "int P < 2 ^ 31"
    by (simp_all add: gather_fits_def)
  have "n * m = word_of_int (sint n * sint m)"
    by (simp add: wi_hom_syms)
  then have "sint (n * m) = sint n * sint m"
    using sint_of_int_fits [OF _ nm] n m by simp
  then show "nat (sint (n * m)) = nat (sint n) * nat (sint m)"
    using n m by (simp add: nat_mult_distrib)
  have "(word_of_nat P :: int32) = word_of_int (int P)"
    by simp
  then have sP: "sint (word_of_nat P :: int32) = int P"
    using sint_of_int_fits [OF _ P] by simp
  then show "nat (sint (word_of_nat P :: int32)) = P"
    by simp
  have "n * word_of_nat P = word_of_int (sint n * int P)"
    by (simp add: wi_hom_syms)
  then have "sint (n * word_of_nat P) = sint n * int P"
    using sint_of_int_fits [OF _ nP] n by simp
  then show "nat (sint (n * word_of_nat P)) = nat (sint n) * P"
    using n by (simp add: nat_mult_distrib)
qed

lemma length_malloc_2d: "length (malloc_2d heap a b) = nat (sint a) * nat (sint b)"
  by (simp add: malloc_2d_def)

text \<open>The loop of lines 34--36 and 51--53, up to row \<open>k\<close>.\<close>

lemma length_fold_inner_rows:
  "length (fold (\<lambda>i d. memcpy d (idx m i 0) src (idx (m + 2) (i + 1) 1) m) [0..<k] dst) = length dst"
  by (induction k) (simp_all add: length_memcpy)

lemma nth_fold_inner_rows:
  assumes len: "n * m \<le> length dst" and j: "j < m" and p: "idx m i j < length dst"
  shows "k \<le> n \<Longrightarrow>
         fold (\<lambda>i d. memcpy d (idx m i 0) src (idx (m + 2) (i + 1) 1) m) [0..<k] dst ! idx m i j =
           (if i < k then src ! idx (m + 2) (i + 1) (j + 1) else dst ! idx m i j)"
proof (induction k)
  case 0
  then show ?case by simp
next
  case (Suc k)
  define D where "D = fold (\<lambda>i d. memcpy d (idx m i 0) src (idx (m + 2) (i + 1) 1) m) [0..<k] dst"
  have IH: "D ! idx m i j = (if i < k then src ! idx (m + 2) (i + 1) (j + 1) else dst ! idx m i j)"
    unfolding D_def using Suc by simp
  have lenD: "length D = length dst"
    unfolding D_def by (rule length_fold_inner_rows)
  have "Suc k * m \<le> n * m"
    using Suc.prems by (intro mult_le_mono1)
  then have fits: "idx m k 0 + m \<le> length D"
    using len by (simp add: lenD idx_def)
  have pD: "idx m i j < length D"
    using p by (simp add: lenD)
  have seg: "(idx m k 0 \<le> idx m i j \<and> idx m i j < idx m k 0 + m) \<longleftrightarrow> (i = k \<and> 0 \<le> j \<and> j < 0 + m)"
    using j by (intro in_row_segment) simp_all
  have src: "idx (m + 2) (k + 1) 1 + (idx m i j - idx m k 0) = idx (m + 2) (i + 1) (j + 1)" if "i = k"
    using that by (simp add: idx_def)
  have step: "fold (\<lambda>i d. memcpy d (idx m i 0) src (idx (m + 2) (i + 1) 1) m) [0..<Suc k] dst
                = memcpy D (idx m k 0) src (idx (m + 2) (k + 1) 1) m"
    by (simp add: D_def)
  show ?case
    unfolding step nth_memcpy [OF fits pD] seg
    using IH src j by (auto simp: less_Suc_eq)
qed

lemma nth_copy_inner_rows:
  assumes len: "nat (sint (nx t)) * nat (sint (ny t)) \<le> length dst"
    and j: "j < nat (sint (ny t))" and p: "idx (nat (sint (ny t))) i j < length dst"
  shows "copy_inner_rows dst t ! idx (nat (sint (ny t))) i j =
           (if i < nat (sint (nx t)) then data t ! idx (nat (sint (ny t)) + 2) (i + 1) (j + 1)
            else dst ! idx (nat (sint (ny t))) i j)"
  unfolding copy_inner_rows_def Let_def
  using len j p order_refl by (rule nth_fold_inner_rows)

lemma length_copy_inner_rows: "length (copy_inner_rows dst t) = length dst"
  unfolding copy_inner_rows_def Let_def by (rule length_fold_inner_rows)

text \<open>The message of a rank other than 0.\<close>

lemma write_field_send_props:
  assumes fit: "gather_fits P (nx t) (ny t)"
  defines "n \<equiv> nat (sint (nx t))" and "m \<equiv> nat (sint (ny t))"
  shows "length (write_field_send heap t) = n * m"
    and "\<forall>i < n. \<forall>j < m. write_field_send heap t ! idx m i j = data t ! idx (m + 2) (i + 1) (j + 1)"
proof -
  let ?tmp = "malloc_2d heap (nx t) (ny t)"
  have cnt: "nat (sint (nx t * ny t)) = n * m"
    unfolding n_def m_def using fit by (rule gather_counts)
  have lt: "length ?tmp = n * m"
    by (simp add: length_malloc_2d n_def m_def)
  have snd: "write_field_send heap t = take (n * m) (copy_inner_rows ?tmp t)"
    by (simp add: write_field_send_def Let_def cnt)
  show "length (write_field_send heap t) = n * m"
    by (simp add: snd length_copy_inner_rows lt)
  show "\<forall>i < n. \<forall>j < m. write_field_send heap t ! idx m i j = data t ! idx (m + 2) (i + 1) (j + 1)"
  proof (intro allI impI)
    fix i j assume i: "i < n" and j: "j < m"
    then have p: "idx m i j < n * m"
      by (rule idx_less)
    have "copy_inner_rows ?tmp t ! idx m i j =
           (if i < n then data t ! idx (m + 2) (i + 1) (j + 1) else ?tmp ! idx m i j)"
      unfolding n_def m_def
      by (rule nth_copy_inner_rows) (use lt p j in \<open>simp_all add: n_def m_def\<close>)
    then show "write_field_send heap t ! idx m i j = data t ! idx (m + 2) (i + 1) (j + 1)"
      using i p by (simp add: snd)
  qed
qed

lemma receive_loop_uniform:
  assumes cnt: "nat (sint (nx t * ny t)) = c"
  shows "\<forall>p \<in> set ps. length (msgs p) = c \<Longrightarrow> length tmp = c \<Longrightarrow>
         \<exists>tmp'. receive_loop t msgs ps (tmp, full) =
           Completed (tmp', fold (\<lambda>p f. memcpy f (idx (nat (sint (ny t))) (p * nat (sint (nx t))) 0)
                                     (msgs p) 0 c) ps full)"
proof (induction ps arbitrary: tmp full)
  case Nil
  then show ?case by simp
next
  case (Cons p ps)
  then have lp: "length (msgs p) = c" and rest: "\<forall>p \<in> set ps. length (msgs p) = c"
    by simp_all
  have tmp': "msgs p @ drop c tmp = msgs p"
    using Cons.prems(2) by simp
  from Cons.IH [OF rest lp, of "memcpy full (idx (nat (sint (ny t))) (p * nat (sint (nx t))) 0) (msgs p) 0 c"]
  show ?case
    by (simp add: cnt lp tmp' Let_def)
qed

lemma length_fold_blocks:
  "length (fold (\<lambda>p f. memcpy f (g p) (msgs p) 0 c) ps full) = length full"
  by (induction ps arbitrary: full) (simp_all add: length_memcpy)

lemma nth_fold_blocks:
  assumes len: "length full = P * c" and off: "off < c" and q: "q < P"
  shows "k \<le> P \<Longrightarrow>
         fold (\<lambda>p f. memcpy f (idx c p 0) (msgs p) 0 c) [1..<k] full ! idx c q off =
           (if 1 \<le> q \<and> q < k then msgs q ! off else full ! idx c q off)"
proof (induction k)
  case 0
  then show ?case by simp
next
  case (Suc k)
  show ?case
  proof (cases "k = 0")
    case True
    then show ?thesis by auto
  next
    case False
    define D where "D = fold (\<lambda>p f. memcpy f (idx c p 0) (msgs p) 0 c) [1..<k] full"
    have IH: "D ! idx c q off = (if 1 \<le> q \<and> q < k then msgs q ! off else full ! idx c q off)"
      unfolding D_def using Suc by simp
    have lenD: "length D = P * c"
      unfolding D_def by (simp only: length_fold_blocks len)
    have "[1..<Suc k] = [1..<k] @ [k]"
      using False by simp
    then have step: "fold (\<lambda>p f. memcpy f (idx c p 0) (msgs p) 0 c) [1..<Suc k] full
                       = memcpy D (idx c k 0) (msgs k) 0 c"
      by (simp add: D_def)
    have "Suc k * c \<le> P * c"
      using Suc.prems by (intro mult_le_mono1)
    then have fits: "idx c k 0 + c \<le> length D"
      by (simp add: lenD idx_def)
    have pD: "idx c q off < length D"
      unfolding lenD using q off by (rule idx_less)
    have seg: "(idx c k 0 \<le> idx c q off \<and> idx c q off < idx c k 0 + c)
                 \<longleftrightarrow> (q = k \<and> 0 \<le> off \<and> off < 0 + c)"
      using off by (intro in_row_segment) simp_all
    have src: "0 + (idx c q off - idx c k 0) = off" if "q = k"
      using that by (simp add: idx_def)
    show ?thesis
      unfolding step nth_memcpy [OF fits pD] seg
      using IH src off False by (auto simp: less_Suc_eq)
  qed
qed

lemma idx_block: "idx m (q * n + i) j = idx (n * m) q (idx m i j)"
  by (simp add: idx_def algebra_simps)

lemma idx_block_0: "idx m (p * n) 0 = idx (n * m) p 0"
  by (simp add: idx_def algebra_simps)

text \<open>
  Claim C8, as amended. \<^verbatim>\<open>write_field\<close> takes the row count of rank 0 for every source and
  \<open>P\<close> times that count as the height of the buffer. When every rank holds the same number
  \<open>local_rows\<close> of interior rows, \<open>rows_full = P \<times> local_rows\<close>, and the counts are representable
  in \<^verbatim>\<open>int\<close>, rank 0 completes for every process count \<open>P\<close>; the buffer it hands to the encoder
  has \<open>rows_full \<times> cols_full\<close> cells, and its row block \<open>q\<close> (rows \<open>q \<times> local_rows\<close> up to
  \<open>(q + 1) \<times> local_rows - 1\<close>) holds the interior of the tile of rank \<open>q\<close>, ghost layers
  excluded, for every rank \<open>q\<close>.
\<close>

theorem write_field_gathers_in_rank_order:
  assumes fit: "gather_fits (length ts) nl cols" and u: "uniform_tiles ts nl cols" and ne: "ts \<noteq> []"
    and grid: "nx_full (ts ! 0) = nl * word_of_nat (length ts)" "ny_full (ts ! 0) = cols"
  shows "\<exists>full_data. write_field_all heap_tmp heap_full ts
                        = Completed (full_data, nx_full (ts ! 0), ny_full (ts ! 0)) \<and>
           length full_data = nat (sint (nx_full (ts ! 0))) * nat (sint (ny_full (ts ! 0))) \<and>
           nat (sint (nx_full (ts ! 0))) = length ts * nat (sint nl) \<and>
           (\<forall>q < length ts. \<forall>i < nat (sint nl). \<forall>j < nat (sint cols).
              full_data ! idx (nat (sint cols)) (q * nat (sint nl) + i) j
                = data (ts ! q) ! idx (nat (sint cols) + 2) (i + 1) (j + 1))"
proof -
  let ?P = "length ts" and ?n = "nat (sint nl)" and ?m = "nat (sint cols)"
  let ?c = "?n * ?m"
  let ?t = "ts ! 0"
  let ?msgs = "\<lambda>p. write_field_send (heap_tmp p) (ts ! p)"
  from ne have P: "0 < ?P" by simp
  from ne have P1: "Suc 0 \<le> ?P" by (cases ts) simp_all
  have t: "nx (ts ! p) = nl" "ny (ts ! p) = cols" if "p < ?P" for p
    using u that by (simp_all add: uniform_tiles_def)
  have cnt: "nat (sint (nl * cols)) = ?c" and sP: "nat (sint (word_of_nat ?P :: int32)) = ?P"
    and h: "nat (sint (nl * word_of_nat ?P)) = ?n * ?P"
    using gather_counts [OF fit] by simp_all
  have msg_len: "length (?msgs p) = ?c" if "p < ?P" for p
    using write_field_send_props(1) [of ?P "ts ! p" "heap_tmp p"] fit t [OF that] by simp
  have msg_nth: "?msgs p ! idx ?m i j = data (ts ! p) ! idx (?m + 2) (i + 1) (j + 1)"
    if "p < ?P" "i < ?n" "j < ?m" for p i j
    using write_field_send_props(2) [of ?P "ts ! p" "heap_tmp p"] fit t [OF that(1)] that(2,3) by simp
  define full0 where "full0 = copy_inner_rows (malloc_2d heap_full (nl * word_of_nat ?P) cols) ?t"
  have len0: "length full0 = ?P * ?c"
    by (simp add: full0_def length_copy_inner_rows length_malloc_2d h ac_simps)
  have nth0: "full0 ! idx ?m i j = data ?t ! idx (?m + 2) (i + 1) (j + 1)" if "i < ?n" "j < ?m" for i j
  proof -
    have p: "idx ?m i j < ?n * ?m"
      using that by (rule idx_less)
    also have "\<dots> \<le> ?P * ?c"
      using P1 by simp
    finally have p': "idx ?m i j < length (malloc_2d heap_full (nl * word_of_nat ?P) cols)"
      by (simp add: length_malloc_2d h ac_simps)
    have le: "?c \<le> length (malloc_2d heap_full (nl * word_of_nat ?P) cols)"
      using P1 by (simp add: length_malloc_2d h ac_simps)
    from nth_copy_inner_rows [of ?t "malloc_2d heap_full (nl * word_of_nat ?P) cols" j i]
    show ?thesis
      using le p' that t [OF P] by (simp add: full0_def)
  qed
  define full where "full = fold (\<lambda>p f. memcpy f (idx ?c p 0) (?msgs p) 0 ?c) [1..<?P] full0"
  have all_len: "\<forall>p \<in> set [1..<?P]. length (?msgs p) = ?c"
    using msg_len by simp
  have "nat (sint (nx ?t * ny ?t)) = ?c"
    using cnt t [OF P] by simp
  from receive_loop_uniform [OF this all_len, of "malloc_2d (heap_tmp 0) nl cols" full0]
  obtain tmp' where rl: "receive_loop ?t ?msgs [1..<?P] (malloc_2d (heap_tmp 0) nl cols, full0)
      = Completed (tmp', full)"
    using t [OF P] by (auto simp: length_malloc_2d full_def idx_block_0)
  have wf: "write_field_all heap_tmp heap_full ts = Completed (full, nx_full ?t, ny_full ?t)"
    using rl t [OF P]
    by (simp add: write_field_all_def write_field_root_def Let_def sP full0_def grid)
  have len: "length full = ?P * ?c"
    unfolding full_def by (simp only: length_fold_blocks len0)
  have nth: "full ! idx ?m (q * ?n + i) j = data (ts ! q) ! idx (?m + 2) (i + 1) (j + 1)"
    if q: "q < ?P" and i: "i < ?n" and j: "j < ?m" for q i j
  proof -
    have off: "idx ?m i j < ?c"
      using i j by (rule idx_less)
    have "full ! idx ?c q (idx ?m i j) =
            (if 1 \<le> q \<and> q < ?P then ?msgs q ! idx ?m i j else full0 ! idx ?c q (idx ?m i j))"
      unfolding full_def using len0 off q order_refl by (rule nth_fold_blocks)
    moreover have "idx ?c 0 (idx ?m i j) = idx ?m i j"
      by (simp add: idx_def)
    ultimately show ?thesis
      using q msg_nth [OF q i j] nth0 [OF i j]
      by (cases "q = 0") (simp_all add: idx_block)
  qed
  have hr: "nat (sint (nx_full ?t)) = ?P * ?n"
    using h by (simp add: grid ac_simps)
  show ?thesis
  proof (intro exI [of _ full] conjI allI impI)
    show "write_field_all heap_tmp heap_full ts = Completed (full, nx_full ?t, ny_full ?t)"
      by (rule wf)
    show "length full = nat (sint (nx_full ?t)) * nat (sint (ny_full ?t))"
      by (simp only: len hr grid(2) mult.assoc)
    show "nat (sint (nx_full ?t)) = ?P * ?n"
      by (rule hr)
    fix q i j assume "q < ?P" "i < ?n" "j < ?m"
    then show "full ! idx ?m (q * ?n + i) j = data (ts ! q) ! idx (?m + 2) (i + 1) (j + 1)"
      by (rule nth)
  qed
qed

section \<open>Instances\<close>

lemma header_4_3: "fscanf_header ''# 4 3 '' = (2, [4, 3], [])"
  by (simp add: fscanf_header_def scan_d_def isspace_def isdigit_def)

theorem read_field_ghost_invariant_witness:
  "fscanf_header ''# 4 3 '' = (2, [4, 3], []) \<and>
   even_rows \<lparr>size_p = 2, rank = 1\<rparr> 4 = 2 \<and>
   tile_fits 2 3 \<and>
   (\<exists>t1 t2. read_field even_rows zero_scan zero_heap zero_heap zero_heap \<lparr>size_p = 2, rank = 1\<rparr>
                (Some ''# 4 3 '')
              = ([Call_MPI_Scatter (2 * 3)], Completed (t1, t2, \<lparr>size_p = 2, rank = 1\<rparr>)) \<and>
            t2 = t1 \<and> length (data t1) = 20 \<and> ghost_mirrored (data t1) 2 3)"
proof -
  have h: "fscanf_header ''# 4 3 '' = (2, [4, 3], [])"
    by (rule header_4_3)
  have lr: "even_rows \<lparr>size_p = 2, rank = 1\<rparr> 4 = 2"
    by (simp add: even_rows_def)
  have fits: "tile_fits 2 3"
    by (simp add: tile_fits_def)
  from read_field_ghost_invariant [where local_rows = even_rows and scan_lf = zero_scan
      and heap_a = zero_heap and heap_b = zero_heap and heap_c = zero_heap, OF h lr fits]
  obtain t1 t2 where
    "read_field even_rows zero_scan zero_heap zero_heap zero_heap \<lparr>size_p = 2, rank = 1\<rparr>
                (Some ''# 4 3 '')
              = ([Call_MPI_Scatter (2 * 3)], Completed (t1, t2, \<lparr>size_p = 2, rank = 1\<rparr>))"
    "t2 = t1" "length (data t1) = (nat (sint (2 :: int32)) + 2) * (nat (sint (3 :: int32)) + 2)"
    "ghost_mirrored (data t1) (nat (sint (2 :: int32))) (nat (sint (3 :: int32)))"
    by blast
  then have "\<exists>t1 t2. read_field even_rows zero_scan zero_heap zero_heap zero_heap \<lparr>size_p = 2, rank = 1\<rparr>
                (Some ''# 4 3 '')
              = ([Call_MPI_Scatter (2 * 3)], Completed (t1, t2, \<lparr>size_p = 2, rank = 1\<rparr>)) \<and>
            t2 = t1 \<and> length (data t1) = 20 \<and> ghost_mirrored (data t1) 2 3"
    by (intro exI [of _ t1] exI [of _ t2]) simp
  with h lr fits show ?thesis
    by (intro conjI)
qed

theorem write_field_gathers_in_rank_order_witness:
  "gather_fits (length [\<lparr>nx = 1, ny = 2, nx_full = 2, ny_full = 2, data = [1, 2, 3, 4, 5, 6, 7, 8, 9, 10, 11, 12]\<rparr>,
                        \<lparr>nx = 1, ny = 2, nx_full = 2, ny_full = 2, data = [21, 22, 23, 24, 25, 26, 27, 28, 29, 30, 31, 32]\<rparr>]) 1 2 \<and>
   uniform_tiles [\<lparr>nx = 1, ny = 2, nx_full = 2, ny_full = 2, data = [1, 2, 3, 4, 5, 6, 7, 8, 9, 10, 11, 12]\<rparr>,
                  \<lparr>nx = 1, ny = 2, nx_full = 2, ny_full = 2, data = [21, 22, 23, 24, 25, 26, 27, 28, 29, 30, 31, 32]\<rparr>] 1 2 \<and>
   (\<exists>full_data.
      write_field_all (\<lambda>p. zero_heap) zero_heap
        [\<lparr>nx = 1, ny = 2, nx_full = 2, ny_full = 2, data = [1, 2, 3, 4, 5, 6, 7, 8, 9, 10, 11, 12]\<rparr>,
         \<lparr>nx = 1, ny = 2, nx_full = 2, ny_full = 2, data = [21, 22, 23, 24, 25, 26, 27, 28, 29, 30, 31, 32]\<rparr>]
        = Completed (full_data, 2, 2) \<and>
      length full_data = 4 \<and>
      full_data ! idx 2 (1 * 1 + 0) 1 = 27)"
proof -
  let ?t0 = "\<lparr>nx = 1, ny = 2, nx_full = 2, ny_full = 2, data = [1, 2, 3, 4, 5, 6, 7, 8, 9, 10, 11, 12 :: double]\<rparr>"
  let ?t1 = "\<lparr>nx = 1, ny = 2, nx_full = 2, ny_full = 2, data = [21, 22, 23, 24, 25, 26, 27, 28, 29, 30, 31, 32 :: double]\<rparr>"
  have fit: "gather_fits (length [?t0, ?t1]) 1 2"
    by (simp add: gather_fits_def)
  have u: "uniform_tiles [?t0, ?t1] 1 2"
    by (simp add: uniform_tiles_def tile_cells_def)
  have ne: "[?t0, ?t1] \<noteq> []"
    by simp
  have g: "nx_full ([?t0, ?t1] ! 0) = 1 * word_of_nat (length [?t0, ?t1])" "ny_full ([?t0, ?t1] ! 0) = 2"
    by simp_all
  from write_field_gathers_in_rank_order [OF fit u ne g, of "\<lambda>p. zero_heap" zero_heap]
  obtain full_data where
    w: "write_field_all (\<lambda>p. zero_heap) zero_heap [?t0, ?t1]
          = Completed (full_data, nx_full ([?t0, ?t1] ! 0), ny_full ([?t0, ?t1] ! 0))"
    and l: "length full_data = nat (sint (nx_full ([?t0, ?t1] ! 0))) * nat (sint (ny_full ([?t0, ?t1] ! 0)))"
    and c: "\<forall>q < length [?t0, ?t1]. \<forall>i < nat (sint (1 :: int32)). \<forall>j < nat (sint (2 :: int32)).
              full_data ! idx (nat (sint (2 :: int32))) (q * nat (sint (1 :: int32)) + i) j
                = data ([?t0, ?t1] ! q) ! idx (nat (sint (2 :: int32)) + 2) (i + 1) (j + 1)"
    by blast
  from c have "full_data ! idx (nat (sint (2 :: int32))) (1 * nat (sint (1 :: int32)) + 0) 1
                = data ([?t0, ?t1] ! 1) ! idx (nat (sint (2 :: int32)) + 2) (0 + 1) (1 + 1)"
    by simp
  then have "full_data ! idx 2 (1 * 1 + 0) 1 = 27"
    by (simp add: idx_def)
  with w l have "\<exists>full_data.
      write_field_all (\<lambda>p. zero_heap) zero_heap [?t0, ?t1] = Completed (full_data, 2, 2) \<and>
      length full_data = 4 \<and> full_data ! idx 2 (1 * 1 + 0) 1 = 27"
    by (intro exI [of _ full_data]) simp
  with fit u show ?thesis
    by (intro conjI)
qed

text \<open>
  Claim C8, as stated, fails: the claim is about arbitrary per-rank row counts. With two
  ranks that hold 2 rows and 1 row of a grid of 3 rows and 2 columns, rank 0 allocates
  \<open>2 \<times> 2 = 4\<close> rows, not 3, and copies 4 cells for rank 1, whose message has 2: the second
  block holds the row of rank 1 followed by a row of stale cells of the receive buffer.
  With the row counts exchanged the message of rank 1 is longer than the receive count,
  which is a truncation error: the run aborts and no buffer is assembled.
\<close>

theorem write_field_mixes_unequal_row_counts:
  "write_field_all (\<lambda>p. zero_heap) zero_heap
     [\<lparr>nx = 2, ny = 2, nx_full = 3, ny_full = 2,
        data = [1, 2, 3, 4, 5, 6, 7, 8, 9, 10, 11, 12, 13, 14, 15, 16]\<rparr>,
      \<lparr>nx = 1, ny = 2, nx_full = 3, ny_full = 2,
        data = [101, 102, 103, 104, 105, 106, 107, 108, 109, 110, 111, 112]\<rparr>]
     = Completed ([6, 7, 10, 11, 106, 107, 0, 0], 4, 2) \<and>
   write_field_all (\<lambda>p. zero_heap) zero_heap
     [\<lparr>nx = 1, ny = 2, nx_full = 3, ny_full = 2,
        data = [101, 102, 103, 104, 105, 106, 107, 108, 109, 110, 111, 112]\<rparr>,
      \<lparr>nx = 2, ny = 2, nx_full = 3, ny_full = 2,
        data = [1, 2, 3, 4, 5, 6, 7, 8, 9, 10, 11, 12, 13, 14, 15, 16]\<rparr>]
     = Aborted"
  by code_simp

end
